theory Spec2Isabelle
  imports Complex_Main "HOL-Library.Sublist"
begin

section \<open>Data model\<close>

text \<open>
  The photostream manager keeps an ordered list of segments (\<open>months\<close>), the viewport
  and scroll state, and three layout options. A numeric field holds the value of a finite
  double, as a \<^typ>\<open>real\<close>. The timeline height and the scroll extent are computed in
  the arithmetic of doubles (next section): every sum, difference and quotient is rounded
  to the nearest double, and overflows to an infinity. The visible window and the absolute
  position of an asset are kept as the source writes them; no statement about them uses a
  law of real arithmetic. Mutation of \<open>this\<close> is explicit state passing.
\<close>

section \<open>The arithmetic of doubles\<close>

text \<open>
  A JavaScript number: a finite double (by its value), NaN or an infinity. The sign of a
  zero is not kept.
\<close>

datatype jsnum = Num real | NaN | PosInfinity | NegInfinity

text \<open>Rounding to the nearest integer, a tie going to the even one.\<close>

definition roundHalfEven :: "real \<Rightarrow> int" where
  "roundHalfEven r =
     (let f = \<lfloor>r\<rfloor>
      in if r - of_int f < 1 / 2 then f
         else if 1 / 2 < r - of_int f then f + 1
         else if even f then f else f + 1)"

text \<open>
  The doubles around \<open>x\<close> are the multiples of \<open>2 powi quantum x\<close>: 53 significant bits
  in the binade of \<open>x\<close>, and the spacing of the subnormal doubles below it.
\<close>

definition quantum :: "real \<Rightarrow> int" where
  "quantum x = max (\<lfloor>log 2 \<bar>x\<bar>\<rfloor> - 52) (- 1074)"

text \<open>
  The double nearest to a real (round to nearest, ties to even), an infinity when the
  rounded value is beyond the largest double.
\<close>

definition roundDouble :: "real \<Rightarrow> jsnum" where
  "roundDouble x =
     (if x = 0 then Num 0
      else (let q = quantum x;
                y = of_int (roundHalfEven (x / 2 powi q)) * 2 powi q
            in if 2 ^ 1024 \<le> \<bar>y\<bar> then (if 0 < x then PosInfinity else NegInfinity)
               else Num y))"

fun jneg :: "jsnum \<Rightarrow> jsnum" where
  "jneg (Num x) = Num (- x)"
| "jneg NaN = NaN"
| "jneg PosInfinity = NegInfinity"
| "jneg NegInfinity = PosInfinity"

text \<open>\<open>a + b\<close>, \<open>a - b\<close> and \<open>a / b\<close> on JavaScript numbers.\<close>

fun jadd :: "jsnum \<Rightarrow> jsnum \<Rightarrow> jsnum" where
  "jadd (Num x) (Num y) = roundDouble (x + y)"
| "jadd (Num x) NaN = NaN"
| "jadd (Num x) PosInfinity = PosInfinity"
| "jadd (Num x) NegInfinity = NegInfinity"
| "jadd NaN b = NaN"
| "jadd PosInfinity (Num y) = PosInfinity"
| "jadd PosInfinity NaN = NaN"
| "jadd PosInfinity PosInfinity = PosInfinity"
| "jadd PosInfinity NegInfinity = NaN"
| "jadd NegInfinity (Num y) = NegInfinity"
| "jadd NegInfinity NaN = NaN"
| "jadd NegInfinity PosInfinity = NaN"
| "jadd NegInfinity NegInfinity = NegInfinity"

definition jsub :: "jsnum \<Rightarrow> jsnum \<Rightarrow> jsnum" where
  "jsub a b = jadd a (jneg b)"

fun jdiv :: "jsnum \<Rightarrow> jsnum \<Rightarrow> jsnum" where
  "jdiv (Num x) (Num y) =
     (if y = 0 then (if x = 0 then NaN else if 0 < x then PosInfinity else NegInfinity)
      else roundDouble (x / y))"
| "jdiv (Num x) NaN = NaN"
| "jdiv (Num x) PosInfinity = Num 0"
| "jdiv (Num x) NegInfinity = Num 0"
| "jdiv NaN b = NaN"
| "jdiv PosInfinity (Num y) = (if 0 \<le> y then PosInfinity else NegInfinity)"
| "jdiv PosInfinity NaN = NaN"
| "jdiv PosInfinity PosInfinity = NaN"
| "jdiv PosInfinity NegInfinity = NaN"
| "jdiv NegInfinity (Num y) = (if 0 \<le> y then NegInfinity else PosInfinity)"
| "jdiv NegInfinity NaN = NaN"
| "jdiv NegInfinity PosInfinity = NaN"
| "jdiv NegInfinity NegInfinity = NaN"

record timelineAsset =
  asset_id :: string
  asset_ratio :: real

record position =
  pos_top :: real
  pos_left :: real
  pos_width :: real
  pos_height :: real

text \<open>
  A \<open>ViewerAsset\<close> wraps one asset; its \<open>position\<close> is undefined until a layout pass
  assigns it. Its \<open>id\<close> getter is the id of the wrapped asset.
\<close>

record viewerAsset =
  va_asset :: timelineAsset
  va_position :: "position option"

definition va_id :: "viewerAsset \<Rightarrow> string" where
  "va_id v = asset_id (va_asset v)"

text \<open>
  The load task of a segment. The manager source reads two flags of such a task,
  \<open>executed\<close> and \<open>loading\<close>, which are distinct: a task that is loading has not yet
  executed.
\<close>

datatype loadTask = NotLoaded | Loading | Loaded

definition executed :: "loadTask \<Rightarrow> bool" where
  "executed t = (t = Loaded)"

definition loading :: "loadTask \<Rightarrow> bool" where
  "loading t = (t = Loading)"

text \<open>
  The base segment, with the properties the manager reads and writes: \<open>viewerAssets\<close>,
  \<open>height\<close>, \<open>top\<close>, \<open>isLoaded\<close> and \<open>loader\<close>, the \<open>intersecting\<close> flag an
  intersection update records, and \<open>initialCount\<close>, which the constructor of a variant
  sets. Variants extend the record.
\<close>

record segment =
  viewerAssets :: "viewerAsset list"
  seg_height :: real
  seg_top :: real
  intersecting :: bool
  initialCount :: nat
  isLoaded :: bool
  loader :: loadTask

text \<open>
  Modelled from the spec: \<open>PhotostreamSegment.assets\<close>, the getter of the base class
  (not among the sources), is the ordered sequence of the items the wrappers reference.
\<close>

definition assets :: "'a segment_scheme \<Rightarrow> timelineAsset list" where
  "assets s = map va_asset (viewerAssets s)"

record 's manager =
  isInitialized :: bool
  topSectionHeight :: real
  bottomSectionHeight :: real
  viewportHeight :: real
  viewportWidth :: real
  scrollTop :: real
  rowHeight :: real
  headerHeight :: real
  gap :: real
  scrolling :: bool
  suspendTransitions :: bool
  updatingIntersections :: bool
  months :: "'s list"

text \<open>A freshly constructed manager: the field initialisers of the class, no segment.\<close>

definition newManager :: "'s manager" where
  "newManager = \<lparr> isInitialized = False, topSectionHeight = 0, bottomSectionHeight = 60,
     viewportHeight = 0, viewportWidth = 0, scrollTop = 0, rowHeight = 235,
     headerHeight = 48, gap = 12, scrolling = False, suspendTransitions = False,
     updatingIntersections = False, months = [] \<rparr>"

record visibleWindow =
  vw_top :: real
  vw_bottom :: real

definition visibleWindow :: "'s manager \<Rightarrow> visibleWindow" where
  "visibleWindow m = \<lparr> vw_top = scrollTop m, vw_bottom = scrollTop m + viewportHeight m \<rparr>"

text \<open>\<open>timelineHeight\<close>: the \<open>reduce\<close> over the months, plus the top section.\<close>

definition timelineHeight :: "('a segment_scheme) manager \<Rightarrow> jsnum" where
  "timelineHeight m =
     jadd (foldl (\<lambda>accumulator b. jadd accumulator (Num (seg_height b))) (Num 0) (months m))
       (Num (topSectionHeight m))"

section \<open>Layout options\<close>

text \<open>
  \<open>TimelineManagerLayoutOptions\<close>: each field may be absent; the destructuring
  defaults of \<open>setLayoutOptions\<close> fill it in.
\<close>

record layoutOptions =
  lo_headerHeight :: "real option"
  lo_rowHeight :: "real option"
  lo_gap :: "real option"

definition setHeaderHeight :: "real \<Rightarrow> 's manager \<Rightarrow> bool \<times> 's manager" where
  "setHeaderHeight v m =
     (if headerHeight m = v then (False, m) else (True, m\<lparr>headerHeight := v\<rparr>))"

definition setGap :: "real \<Rightarrow> 's manager \<Rightarrow> bool \<times> 's manager" where
  "setGap v m = (if gap m = v then (False, m) else (True, m\<lparr>gap := v\<rparr>))"

definition setRowHeight :: "real \<Rightarrow> 's manager \<Rightarrow> bool \<times> 's manager" where
  "setRowHeight v m = (if rowHeight m = v then (False, m) else (True, m\<lparr>rowHeight := v\<rparr>))"

text \<open>
  \<open>changed ||= f()\<close>: the logical-or assignment evaluates its right-hand side only
  when \<open>changed\<close> is still false.
\<close>

definition orAssign :: "bool \<times> 's \<Rightarrow> ('s \<Rightarrow> bool \<times> 's) \<Rightarrow> bool \<times> 's" where
  "orAssign cm f = (if fst cm then cm else f (snd cm))"

section \<open>Geometry refresh and the intersection scan\<close>

text \<open>
  \<open>updateGeometry(manager, month, {invalidateHeight})\<close> and
  \<open>updateIntersectionMonthGroup(manager, month)\<close> live in modules that are not among
  the sources. They are parameters of the model: \<open>ug m i b\<close> and \<open>ui m i\<close> are the
  manager after the call on the month at index \<open>i\<close>. A \<open>for (const month of
  this.months)\<close> loop threads the manager through the calls in index order.
\<close>

definition forEachMonth :: "('s manager \<Rightarrow> nat \<Rightarrow> 's manager) \<Rightarrow> 's manager \<Rightarrow> 's manager" where
  "forEachMonth f m = fold (\<lambda>i m'. f m' i) [0..<length (months m)] m"

definition updateIntersections ::
  "('s manager \<Rightarrow> nat \<Rightarrow> 's manager) \<Rightarrow> 's manager \<Rightarrow> 's manager" where
  "updateIntersections ui m =
     (if updatingIntersections m \<or> \<not> isInitialized m
         \<or> vw_bottom (visibleWindow m) = vw_top (visibleWindow m)
      then m
      else (forEachMonth ui (m\<lparr>updatingIntersections := True\<rparr>))
             \<lparr>updatingIntersections := False\<rparr>)"

definition updateViewportGeometry ::
  "('s manager \<Rightarrow> nat \<Rightarrow> bool \<Rightarrow> 's manager) \<Rightarrow> ('s manager \<Rightarrow> nat \<Rightarrow> 's manager)
     \<Rightarrow> bool \<Rightarrow> 's manager \<Rightarrow> 's manager" where
  "updateViewportGeometry ug ui changedWidth m =
     (if \<not> isInitialized m then m
      else if viewportWidth m = 0 \<or> viewportHeight m = 0 then m
      else updateIntersections ui (forEachMonth (\<lambda>m' i. ug m' i changedWidth) m))"

definition refreshLayout ::
  "('s manager \<Rightarrow> nat \<Rightarrow> bool \<Rightarrow> 's manager) \<Rightarrow> ('s manager \<Rightarrow> nat \<Rightarrow> 's manager)
     \<Rightarrow> 's manager \<Rightarrow> 's manager" where
  "refreshLayout ug ui m = updateIntersections ui (forEachMonth (\<lambda>m' i. ug m' i True) m)"

definition setLayoutOptions ::
  "('s manager \<Rightarrow> nat \<Rightarrow> bool \<Rightarrow> 's manager) \<Rightarrow> ('s manager \<Rightarrow> nat \<Rightarrow> 's manager)
     \<Rightarrow> layoutOptions \<Rightarrow> 's manager \<Rightarrow> 's manager" where
  "setLayoutOptions ug ui config m =
     (let headerHeight' = (case lo_headerHeight config of None \<Rightarrow> 48 | Some v \<Rightarrow> v);
          rowHeight' = (case lo_rowHeight config of None \<Rightarrow> 235 | Some v \<Rightarrow> v);
          gap' = (case lo_gap config of None \<Rightarrow> 12 | Some v \<Rightarrow> v);
          c0 = (False, m);
          c1 = orAssign c0 (setHeaderHeight headerHeight');
          c2 = orAssign c1 (setGap gap');
          c3 = orAssign c2 (setRowHeight rowHeight')
      in if fst c3 then refreshLayout ug ui (snd c3) else snd c3)"

section \<open>Scroll extent\<close>

definition getMaxScrollPercent :: "('a segment_scheme) manager \<Rightarrow> jsnum" where
  "getMaxScrollPercent m =
     (let totalHeight =
            jadd (jadd (timelineHeight m) (Num (bottomSectionHeight m))) (Num (topSectionHeight m))
      in jdiv (jsub totalHeight (Num (viewportHeight m))) totalHeight)"

definition getMaxScroll :: "('a segment_scheme) manager \<Rightarrow> jsnum" where
  "getMaxScroll m =
     jadd (jadd (Num (topSectionHeight m)) (Num (bottomSectionHeight m)))
       (jsub (timelineHeight m) (Num (viewportHeight m)))"

section \<open>Range retrieval\<close>


text \<open>
  The inner loop of \<open>retrieveLoadedRange\<close> over the assets of one month either
  returns from the function (the end descriptor was met) or runs to the end of the
  month and hands \<open>collecting\<close> and \<open>range\<close> (here \<open>found\<close>) on to the next month.
\<close>

datatype scan = Returned "timelineAsset list" | Continue bool "timelineAsset list"




section \<open>Removing assets\<close>

text \<open>\<open>xs.splice(i, 1)\<close>: the element at index \<open>i\<close> is taken out.\<close>

definition splice1 :: "nat \<Rightarrow> 'a list \<Rightarrow> 'a list" where
  "splice1 i xs = take i xs @ drop (Suc i) xs"

text \<open>
  The loop \<open>for (let i = segment.viewerAssets.length - 1; i >= 0; i--)\<close>. The first
  argument of \<open>removeLoop\<close> is \<open>i + 1\<close>, so that the loop ends at \<open>0\<close>. The loop is
  entered with \<open>i + 1\<close> the length of the list and a splice at \<open>i\<close> leaves the
  indices below \<open>i\<close> in place, so every read \<open>vas ! i\<close> is in range.
\<close>

fun removeLoop ::
  "string set \<Rightarrow> nat \<Rightarrow> viewerAsset list \<Rightarrow> string list \<Rightarrow> viewerAsset list \<times> string list" where
  "removeLoop assetIdSet 0 vas removedIds = (vas, removedIds)"
| "removeLoop assetIdSet (Suc i) vas removedIds =
     (if asset_id (va_asset (vas ! i)) \<in> assetIdSet
      then removeLoop assetIdSet i (splice1 i vas) (removedIds @ [asset_id (va_asset (vas ! i))])
      else removeLoop assetIdSet i vas removedIds)"

text \<open>
  The loop over the segments. \<open>segment.layout()\<close> is a method of the base class, not
  among the sources: it is the parameter \<open>layout\<close>, the segment after the call.
\<close>

fun removeFromSegments ::
  "string set \<Rightarrow> ('a segment_scheme \<Rightarrow> 'a segment_scheme) \<Rightarrow> ('a segment_scheme) list
     \<Rightarrow> string list \<Rightarrow> ('a segment_scheme) list \<times> string list" where
  "removeFromSegments assetIdSet layout [] removedIds = ([], removedIds)"
| "removeFromSegments assetIdSet layout (segment # rest) removedIds =
     (let (vas, removedIds') =
            removeLoop assetIdSet (length (viewerAssets segment)) (viewerAssets segment) removedIds;
          segment' = segment\<lparr>viewerAssets := vas\<rparr>;
          segment'' = (if length removedIds' > 0 then layout segment' else segment');
          (rest', removedIds'') = removeFromSegments assetIdSet layout rest removedIds'
      in (segment'' # rest', removedIds''))"

text \<open>\<open>removeAssets\<close> returns the ids that were not removed, and the manager after the call.\<close>

definition removeAssets ::
  "(('a segment_scheme) manager \<Rightarrow> nat \<Rightarrow> bool \<Rightarrow> ('a segment_scheme) manager)
     \<Rightarrow> (('a segment_scheme) manager \<Rightarrow> nat \<Rightarrow> ('a segment_scheme) manager)
     \<Rightarrow> ('a segment_scheme \<Rightarrow> 'a segment_scheme)
     \<Rightarrow> string list \<Rightarrow> ('a segment_scheme) manager
     \<Rightarrow> string list \<times> ('a segment_scheme) manager" where
  "removeAssets ug ui layout assetIds m =
     (let assetIdSet = set assetIds;
          (months', removedIds) = removeFromSegments assetIdSet layout (months m) [];
          m' = m\<lparr>months := months'\<rparr>;
          m'' = (if length removedIds > 0 then updateViewportGeometry ug ui False m' else m')
      in (filter (\<lambda>i. i \<notin> set removedIds) assetIds, m''))"

section \<open>Loading a segment\<close>

text \<open>
  \<open>getSegmentByIdentifier\<close> is \<open>months.find\<close> with the identifier's \<open>matches\<close>
  predicate. The segment object it returns is mutated in place by the caller; the model
  names it by its index in \<open>months\<close>.
\<close>

fun findIndex :: "('a \<Rightarrow> bool) \<Rightarrow> 'a list \<Rightarrow> nat option" where
  "findIndex P [] = None"
| "findIndex P (x # xs) = (if P x then Some 0 else map_option Suc (findIndex P xs))"

definition getSegmentByIdentifier :: "('s \<Rightarrow> bool) \<Rightarrow> 's manager \<Rightarrow> nat option" where
  "getSegmentByIdentifier matches m = findIndex matches (months m)"

text \<open>
  Modelled from the spec: \<open>PhotostreamSegment.load(cancelable)\<close>, a method of the base
  class that is not among the sources. The spec gives the state machine
  \<open>NotLoaded --load()--> Loading --(fetch resolves)--> Loaded\<close> and says that a call
  while \<open>Loading\<close> or after \<open>Loaded\<close> is a no-op. \<open>variantFetch\<close> is the \<open>fetch\<close> of
  the variant, up to the point where it waits for its answer.
\<close>

definition load ::
  "('a segment_scheme \<Rightarrow> 'a segment_scheme) \<Rightarrow> bool \<Rightarrow> 'a segment_scheme \<Rightarrow> 'a segment_scheme" where
  "load variantFetch cancelable s =
     (case loader s of
        NotLoaded \<Rightarrow> variantFetch (s\<lparr>loader := Loading\<rparr>)
      | Loading \<Rightarrow> s
      | Loaded \<Rightarrow> s)"

text \<open>
  Modelled from the spec: the transition \<open>Loading --(fetch resolves)--> Loaded\<close> of the
  same state machine.
\<close>

definition fetchResolved :: "'a segment_scheme \<Rightarrow> 'a segment_scheme" where
  "fetchResolved s =
     (case loader s of
        Loading \<Rightarrow> s\<lparr>loader := Loaded, isLoaded := True\<rparr>
      | NotLoaded \<Rightarrow> s
      | Loaded \<Rightarrow> s)"

text \<open>
  Modelled from the spec: \<open>PhotostreamSegment.reload(cancelable)\<close>, a method of the base
  class that is not among the sources. The spec says that \<open>loadNextPage\<close> schedules a
  non-cancelable reload and that a segment may receive further loads that only append:
  the load task starts over and the segment is loaded again.
\<close>

definition reload ::
  "('a segment_scheme \<Rightarrow> 'a segment_scheme) \<Rightarrow> bool \<Rightarrow> 'a segment_scheme \<Rightarrow> 'a segment_scheme" where
  "reload variantFetch cancelable s = load variantFetch cancelable (s\<lparr>loader := NotLoaded\<rparr>)"

text \<open>
  \<open>loadSegment\<close> up to its \<open>await segment.load(cancelable)\<close>. \<open>options\<close> is the
  optional \<open>{cancelable}\<close> argument; \<open>segment.loader?.executed\<close> reads the load task;
  \<open>segmentLoad\<close> is the \<open>load\<close> method of the segment, a method of the base class.
\<close>

definition loadSegment ::
  "(bool \<Rightarrow> 'a segment_scheme \<Rightarrow> 'a segment_scheme) \<Rightarrow> ('a segment_scheme \<Rightarrow> bool)
     \<Rightarrow> bool option \<Rightarrow> ('a segment_scheme) manager \<Rightarrow> ('a segment_scheme) manager" where
  "loadSegment segmentLoad identifier options m =
     (let cancelable = (case options of None \<Rightarrow> True | Some c \<Rightarrow> c)
      in case getSegmentByIdentifier identifier m of
           None \<Rightarrow> m
         | Some i \<Rightarrow>
             (let segment = months m ! i
              in if executed (loader segment) then m
                 else m\<lparr>months := (months m)[i := segmentLoad cancelable segment]\<rparr>))"

text \<open>The manager once the load of the segment at index \<open>i\<close> has resolved.\<close>

definition segmentLoaded :: "nat \<Rightarrow> ('a segment_scheme) manager \<Rightarrow> ('a segment_scheme) manager" where
  "segmentLoaded i m = m\<lparr>months := (months m)[i := fetchResolved (months m ! i)]\<rparr>"

text \<open>
  The rest of \<open>loadSegment\<close>, once the awaited load of the segment at index \<open>i\<close> has
  resolved with \<open>'LOADED'\<close>: the intersection of that segment is computed again.
\<close>

definition loadSegmentLoaded ::
  "(('a segment_scheme) manager \<Rightarrow> nat \<Rightarrow> ('a segment_scheme) manager) \<Rightarrow> nat
     \<Rightarrow> ('a segment_scheme) manager \<Rightarrow> ('a segment_scheme) manager" where
  "loadSegmentLoaded ui i m = ui (segmentLoaded i m) i"

section \<open>The paginated-query segment\<close>

text \<open>
  \<open>SearchTerms\<close>: the criteria of a search. Of its keys the segment reads \<open>query\<close>,
  \<open>queryAssetId\<close> (only whether they are present) and \<open>size\<close>.
\<close>

record searchTerms =
  st_query :: "string option"
  st_queryAssetId :: "string option"
  st_size :: "nat option"

text \<open>
  The request a fetch sends: the search terms with \<open>withExif\<close>, \<open>isVisible\<close> and the
  page, to the smart search or to the metadata search. \<open>dto_page\<close> holds the page
  token; the source sends its numeric reading (unary plus).
\<close>

record searchDto =
  dto_terms :: searchTerms
  dto_withExif :: bool
  dto_isVisible :: bool
  dto_page :: string

datatype request = SearchSmart searchDto | SearchAssets searchDto

fun requestPage :: "request \<Rightarrow> string" where
  "requestPage (SearchSmart dto) = dto_page dto"
| "requestPage (SearchAssets dto) = dto_page dto"

text \<open>The answer of the query client: the \<open>assets\<close> object with \<open>items\<close> and \<open>nextPage\<close>.\<close>

record 'i response =
  resp_items :: "'i list"
  resp_nextPage :: "string option"

text \<open>
  \<open>SearchResultsSegment\<close> extends the base segment by its private fields. \<open>sent\<close> is
  not a field of the source: it records, for observation, the requests the segment has
  sent to the query client, oldest first.
\<close>

record searchResultsSegment = segment +
  searchTerms :: searchTerms
  currentPage :: "string option"
  nextPage :: "string option"
  sent :: "request list"

text \<open>
  The constructor. \<open>initialCount\<close> is \<open>searchTerms.size || 100\<close>; the other fields of
  the base class start unloaded and empty.
\<close>

definition newSearchResultsSegment :: "string \<Rightarrow> searchTerms \<Rightarrow> searchResultsSegment" where
  "newSearchResultsSegment page terms =
     \<lparr> viewerAssets = [], seg_height = 0, seg_top = 0, intersecting = False,
       initialCount = (case st_size terms of None \<Rightarrow> 100 | Some n \<Rightarrow> if n = 0 then 100 else n),
       isLoaded = False, loader = NotLoaded,
       searchTerms = terms, currentPage = Some page, nextPage = None, sent = [] \<rparr>"

text \<open>
  The \<open>identifier\<close> the constructor builds: it matches the segments whose search terms
  equal the given ones (\<open>isEqual\<close>).
\<close>

definition searchIdentifier :: "searchTerms \<Rightarrow> searchResultsSegment \<Rightarrow> bool" where
  "searchIdentifier terms segment = (searchTerms segment = terms)"

text \<open>
  \<open>fetch\<close> is asynchronous with one \<open>await\<close>. Before it, the function returns when
  there is no current page, and otherwise builds the request it then waits for.
  \<open>isSmartSearchEnabled\<close> is the manager option read at that moment.
\<close>

definition fetchRequest :: "bool \<Rightarrow> searchResultsSegment \<Rightarrow> request option" where
  "fetchRequest isSmartSearchEnabled s =
     (case currentPage s of
        None \<Rightarrow> None
      | Some page \<Rightarrow>
          (let searchDto = \<lparr> dto_terms = searchTerms s, dto_withExif = True,
                              dto_isVisible = True, dto_page = page \<rparr>
           in if (st_query (searchTerms s) \<noteq> None \<or> st_queryAssetId (searchTerms s) \<noteq> None)
                   \<and> isSmartSearchEnabled
              then Some (SearchSmart searchDto)
              else Some (SearchAssets searchDto)))"

text \<open>\<open>fetchStart\<close> is the part of \<open>fetch\<close> before the \<open>await\<close>: the request, if any, goes out.\<close>

definition fetchStart :: "bool \<Rightarrow> searchResultsSegment \<Rightarrow> searchResultsSegment" where
  "fetchStart isSmartSearchEnabled s =
     (case fetchRequest isSmartSearchEnabled s of
        None \<Rightarrow> s
      | Some q \<Rightarrow> s\<lparr>sent := sent s @ [q]\<rparr>)"

text \<open>
  \<open>fetchFinish\<close> is the part after the \<open>await\<close>, with the answer \<open>r\<close>: the next page
  token is stored, a new wrapper (no position yet) is pushed for every item, and the
  segment is laid out. \<open>toTimelineAsset\<close> and \<open>layout\<close> are not among the sources and
  are parameters.
\<close>

definition fetchFinish ::
  "(searchResultsSegment \<Rightarrow> searchResultsSegment) \<Rightarrow> ('i \<Rightarrow> timelineAsset) \<Rightarrow> 'i response
     \<Rightarrow> searchResultsSegment \<Rightarrow> searchResultsSegment" where
  "fetchFinish layout toTimelineAsset r s =
     layout (s\<lparr> nextPage := resp_nextPage r,
                viewerAssets := viewerAssets s @
                  map (\<lambda>asset. \<lparr> va_asset = toTimelineAsset asset, va_position = None \<rparr>) (resp_items r) \<rparr>)"

text \<open>A whole fetch against a query client that answers the request \<open>q\<close> with \<open>client q\<close>.\<close>

definition fetch ::
  "bool \<Rightarrow> (request \<Rightarrow> 'i response) \<Rightarrow> (searchResultsSegment \<Rightarrow> searchResultsSegment)
     \<Rightarrow> ('i \<Rightarrow> timelineAsset) \<Rightarrow> searchResultsSegment \<Rightarrow> searchResultsSegment" where
  "fetch isSmartSearchEnabled client layout toTimelineAsset s =
     (case fetchRequest isSmartSearchEnabled s of
        None \<Rightarrow> s
      | Some q \<Rightarrow> fetchFinish layout toTimelineAsset (client q) (s\<lparr>sent := sent s @ [q]\<rparr>))"


definition loadNextPage :: "bool \<Rightarrow> searchResultsSegment \<Rightarrow> searchResultsSegment" where
  "loadNextPage isSmartSearchEnabled s =
     (case nextPage s of
        None \<Rightarrow> s
      | Some np \<Rightarrow>
          if currentPage s = Some np then s
          else reload (fetchStart isSmartSearchEnabled) False (s\<lparr>currentPage := Some np\<rparr>))"

text \<open>
  A segment together with its query client. The client answers the requests in the
  order they were sent, with the responses of \<open>w_script\<close>; \<open>w_answered\<close> counts the
  requests answered so far. A request is in flight when fewer requests were answered
  than sent.
\<close>

record 'i world =
  w_segment :: searchResultsSegment
  w_answered :: nat
  w_script :: "'i response list"

datatype event = LoadNextPage | Resolve

definition step ::
  "bool \<Rightarrow> (searchResultsSegment \<Rightarrow> searchResultsSegment) \<Rightarrow> ('i \<Rightarrow> timelineAsset)
     \<Rightarrow> event \<Rightarrow> 'i world \<Rightarrow> 'i world" where
  "step isSmartSearchEnabled layout toTimelineAsset e w =
     (case e of
        LoadNextPage \<Rightarrow> w\<lparr>w_segment := loadNextPage isSmartSearchEnabled (w_segment w)\<rparr>
      | Resolve \<Rightarrow>
          (if w_answered w < length (sent (w_segment w)) then
             (case w_script w of
                [] \<Rightarrow> w
              | r # rs \<Rightarrow>
                  w\<lparr> w_segment := fetchResolved (fetchFinish layout toTimelineAsset r (w_segment w)),
                     w_answered := Suc (w_answered w),
                     w_script := rs \<rparr>)
           else w))"

definition run ::
  "bool \<Rightarrow> (searchResultsSegment \<Rightarrow> searchResultsSegment) \<Rightarrow> ('i \<Rightarrow> timelineAsset)
     \<Rightarrow> event list \<Rightarrow> 'i world \<Rightarrow> 'i world" where
  "run isSmartSearchEnabled layout toTimelineAsset es w =
     fold (step isSmartSearchEnabled layout toTimelineAsset) es w"

definition pagesSent :: "'i world \<Rightarrow> string list" where
  "pagesSent w = map requestPage (sent (w_segment w))"

section \<open>The static segment\<close>

text \<open>
  \<open>createSimpleSegment(manager, assets)\<close>: the one segment of the simple manager. Its
  wrappers are derived from the assets it is given, whether or not it was loaded; its
  \<open>fetch\<close> resolves at once and changes nothing; its identifier matches every segment.
  The fields of the base class start as the spec has a new segment: not loaded.
\<close>

definition createSimpleSegment :: "timelineAsset list \<Rightarrow> segment" where
  "createSimpleSegment givenAssets =
     \<lparr> viewerAssets = map (\<lambda>asset. \<lparr> va_asset = asset, va_position = None \<rparr>) givenAssets,
       seg_height = 0, seg_top = 0, intersecting = False, initialCount = 0,
       isLoaded = False, loader = NotLoaded \<rparr>"

definition simpleFetch :: "segment \<Rightarrow> segment" where
  "simpleFetch s = s"

definition simpleIdentifier :: "segment \<Rightarrow> bool" where
  "simpleIdentifier s = True"

section \<open>Observations and example states\<close>

text \<open>The ids each segment holds, segment by segment, in display order.\<close>

definition itemIds :: "('a segment_scheme) manager \<Rightarrow> string list list" where
  "itemIds m = map (\<lambda>s. map va_id (viewerAssets s)) (months m)"

text \<open>
  The spec's invariant on the timeline height adds "gaps" to the sum of the segment
  heights. Read with the manager's \<open>gap\<close> option, \<open>n\<close> segments have \<open>n - 1\<close> gaps
  between them.
\<close>

definition segmentGaps :: "'s manager \<Rightarrow> real" where
  "segmentGaps m = gap m * real (length (months m) - 1)"

definition mkAsset :: "string \<Rightarrow> timelineAsset" where
  "mkAsset i = \<lparr> asset_id = i, asset_ratio = 1 \<rparr>"

definition mkViewerAsset :: "string \<Rightarrow> viewerAsset" where
  "mkViewerAsset i = \<lparr> va_asset = mkAsset i, va_position = None \<rparr>"

text \<open>A static segment over the assets with the given ids, with a height.\<close>

definition mkSegment :: "string list \<Rightarrow> real \<Rightarrow> segment" where
  "mkSegment ids h = (createSimpleSegment (map mkAsset ids))\<lparr>seg_height := h\<rparr>"

text \<open>
  Stand-ins for the three functions that are parameters of the model, used where a
  theorem is applied to a concrete state: a layout that puts every wrapper into one row,
  a geometry update that places the month below the months before it, and an
  intersection update that compares the month with the visible window.
\<close>

definition rowLayout :: "'a segment_scheme \<Rightarrow> 'a segment_scheme" where
  "rowLayout s =
     s\<lparr> viewerAssets :=
          map (\<lambda>v. v\<lparr>va_position :=
                 Some \<lparr> pos_top = 0, pos_left = 0, pos_width = 235, pos_height = 235 \<rparr>\<rparr>)
            (viewerAssets s),
        seg_height := 235 \<rparr>"

definition stackGeometry ::
  "('a segment_scheme) manager \<Rightarrow> nat \<Rightarrow> bool \<Rightarrow> ('a segment_scheme) manager" where
  "stackGeometry m i invalidateHeight =
     m\<lparr>months := (months m)[i := (months m ! i)\<lparr>seg_top :=
        sum_list (map seg_height (take i (months m)))\<rparr>]\<rparr>"

definition windowIntersection ::
  "('a segment_scheme) manager \<Rightarrow> nat \<Rightarrow> ('a segment_scheme) manager" where
  "windowIntersection m i =
     m\<lparr>months := (months m)[i := (months m ! i)\<lparr>intersecting :=
        seg_top (months m ! i) < vw_bottom (visibleWindow m)
        \<and> vw_top (visibleWindow m) < seg_top (months m ! i) + seg_height (months m ! i)\<rparr>]\<rparr>"

text \<open>A loaded static segment over the assets with the given ids, with a height.\<close>

definition loadedSegment :: "string list \<Rightarrow> real \<Rightarrow> segment" where
  "loadedSegment ids h =
     (createSimpleSegment (map mkAsset ids))\<lparr>seg_height := h, isLoaded := True, loader := Loaded\<rparr>"

definition twoSegments :: "segment manager" where
  "twoSegments = newManager\<lparr>months := [loadedSegment [''a''] 100, loadedSegment [''b''] 100]\<rparr>"

definition wholePixels :: "segment manager" where
  "wholePixels = newManager\<lparr>topSectionHeight := 48,
     months := [loadedSegment [''a''] 235, loadedSegment [''b''] 470]\<rparr>"

definition hugeTop :: "segment manager" where
  "hugeTop = newManager\<lparr>topSectionHeight := 2 ^ 53, months := [loadedSegment [''a''] 1]\<rparr>"

text \<open>
  One loaded segment whose height is the double nearest to 235.4, under a top section
  whose height is the double nearest to 48.3.
\<close>

definition fractional :: "segment manager" where
  "fractional = newManager\<lparr>topSectionHeight := 3398810343781171 / 2 ^ 46,
     months := [loadedSegment [''a''] (8282401189711053 / 2 ^ 45)]\<rparr>"

text \<open>
  The simple manager as it is constructed (one static segment over no assets), after
  \<open>topSectionHeight = 10\<close> and \<open>viewportHeight = 40\<close>: the first is a public field,
  and the setter of the second stores the value and calls \<open>updateViewportGeometry\<close>,
  which returns at once on a manager that is not initialised.
\<close>

definition simpleWithTop :: "segment manager" where
  "simpleWithTop = newManager\<lparr>topSectionHeight := 10, viewportHeight := 40,
     months := [createSimpleSegment []]\<rparr>"



definition scanning :: "segment manager" where
  "scanning = newManager\<lparr>isInitialized := True, viewportHeight := 800, viewportWidth := 1200,
     updatingIntersections := True, months := [mkSegment [''a''] 100, mkSegment [''b''] 250]\<rparr>"

definition idle :: "segment manager" where
  "idle = scanning\<lparr>updatingIntersections := False\<rparr>"

definition album :: "segment manager" where
  "album = newManager\<lparr>isInitialized := True, viewportHeight := 800, viewportWidth := 1200,
     months := [loadedSegment [''a'', ''b'', ''c''] 470, loadedSegment [''d'', ''e''] 300,
                loadedSegment [''f''] 300]\<rparr>"

definition beachTerms :: searchTerms where
  "beachTerms = \<lparr> st_query = Some ''beach'', st_queryAssetId = None, st_size = None \<rparr>"

definition searchManager :: "searchResultsSegment manager" where
  "searchManager = newManager\<lparr>months := [newSearchResultsSegment ''1'' beachTerms]\<rparr>"

definition placed :: searchResultsSegment where
  "placed = (newSearchResultsSegment ''1'' beachTerms)
     \<lparr> viewerAssets :=
          [mkViewerAsset ''a'',
           (mkViewerAsset ''b'')\<lparr>va_position :=
              Some \<lparr> pos_top = 10, pos_left = 0, pos_width = 235, pos_height = 235 \<rparr>\<rparr>],
        seg_top := 100 \<rparr>"

text \<open>
  The query client of the pagination scenario: its three answers carry the next-page
  tokens \<open>"2"\<close>, \<open>"3"\<close> and \<open>null\<close>. \<open>firstLoad\<close> is the segment for page \<open>"1"\<close> with
  its first load started, as \<open>loadSegment\<close> starts it.
\<close>

definition threePages :: "'i list \<Rightarrow> 'i list \<Rightarrow> 'i list \<Rightarrow> 'i response list" where
  "threePages xs ys zs =
     [\<lparr> resp_items = xs, resp_nextPage = Some ''2'' \<rparr>,
      \<lparr> resp_items = ys, resp_nextPage = Some ''3'' \<rparr>,
      \<lparr> resp_items = zs, resp_nextPage = None \<rparr>]"

definition firstLoad :: "bool \<Rightarrow> searchTerms \<Rightarrow> 'i response list \<Rightarrow> 'i world" where
  "firstLoad isSmartSearchEnabled terms script =
     \<lparr> w_segment = load (fetchStart isSmartSearchEnabled) True (newSearchResultsSegment ''1'' terms),
       w_answered = 0, w_script = script \<rparr>"

text \<open>
  What the pagination scenario observes of a world: the pages requested so far, the
  current and the next page token, the number of answers, and the tokens the client has
  yet to give. \<open>pagingStates\<close> lists the observations the scenario can reach and
  \<open>absStep\<close> is a step of the world as seen on them.
\<close>

definition observe ::
  "'i world \<Rightarrow> string list \<times> string option \<times> string option \<times> nat \<times> string option list" where
  "observe w = (pagesSent w, currentPage (w_segment w), nextPage (w_segment w), w_answered w,
     map resp_nextPage (w_script w))"

definition pagingStates ::
  "(string list \<times> string option \<times> string option \<times> nat \<times> string option list) list" where
  "pagingStates =
     [([''1''], Some ''1'', None, 0, [Some ''2'', Some ''3'', None]),
      ([''1''], Some ''1'', Some ''2'', 1, [Some ''3'', None]),
      ([''1'', ''2''], Some ''2'', Some ''2'', 1, [Some ''3'', None]),
      ([''1'', ''2''], Some ''2'', Some ''3'', 2, [None]),
      ([''1'', ''2'', ''3''], Some ''3'', Some ''3'', 2, [None]),
      ([''1'', ''2'', ''3''], Some ''3'', None, 3, [])]"

fun absStep ::
  "event \<Rightarrow> string list \<times> string option \<times> string option \<times> nat \<times> string option list
     \<Rightarrow> string list \<times> string option \<times> string option \<times> nat \<times> string option list" where
  "absStep LoadNextPage (p, c, n, a, sc) =
     (case n of
        None \<Rightarrow> (p, c, n, a, sc)
      | Some np \<Rightarrow> if c = Some np then (p, c, n, a, sc) else (p @ [np], Some np, Some np, a, sc))"
| "absStep Resolve (p, c, n, a, sc) =
     (if a < length p
      then (case sc of [] \<Rightarrow> (p, c, n, a, sc) | t # ts \<Rightarrow> (p, c, t, Suc a, ts))
      else (p, c, n, a, sc))"

section \<open>Layout options: what \<open>setLayoutOptions\<close> commits\<close>

text \<open>
  Because of the short-circuit of \<open>||=\<close>, the first option that differs is the only
  one written: the header height, else the gap, else the row height.
\<close>

lemma setLayoutOptions_cases:
  "setLayoutOptions ug ui \<lparr>lo_headerHeight = Some hh, lo_rowHeight = Some rh, lo_gap = Some g\<rparr> m =
     (if headerHeight m \<noteq> hh then refreshLayout ug ui (m\<lparr>headerHeight := hh\<rparr>)
      else if gap m \<noteq> g then refreshLayout ug ui (m\<lparr>gap := g\<rparr>)
      else if rowHeight m \<noteq> rh then refreshLayout ug ui (m\<lparr>rowHeight := rh\<rparr>)
      else m)"
  by (simp add: setLayoutOptions_def orAssign_def setHeaderHeight_def setGap_def
      setRowHeight_def Let_def)

lemma refreshLayout_newManager:
  "refreshLayout ug ui (newManager\<lparr>headerHeight := v\<rparr>) = newManager\<lparr>headerHeight := v\<rparr>"
  by (simp add: refreshLayout_def forEachMonth_def updateIntersections_def newManager_def)

text \<open>
  Claim C1. \<open>setLayoutOptions\<close> is to apply header height, row height and gap together:
  whenever one of them differs from the stored value, all three stored values equal the
  supplied ones after the call. On a fresh manager (48, 235, 12) the call with
  \<open>{headerHeight: 50, rowHeight: 200, gap: 20}\<close> stores the header height only: the gap
  stays 12 and the row height stays 235.
\<close>

theorem setLayoutOptions_partial_application:
  "headerHeight (setLayoutOptions ug ui
      \<lparr>lo_headerHeight = Some 50, lo_rowHeight = Some 200, lo_gap = Some 20\<rparr> newManager) = 50
   \<and> gap (setLayoutOptions ug ui
      \<lparr>lo_headerHeight = Some 50, lo_rowHeight = Some 200, lo_gap = Some 20\<rparr> newManager) = 12
   \<and> rowHeight (setLayoutOptions ug ui
      \<lparr>lo_headerHeight = Some 50, lo_rowHeight = Some 200, lo_gap = Some 20\<rparr> newManager) = 235"
  by (simp add: setLayoutOptions_cases refreshLayout_newManager) (simp add: newManager_def)

section \<open>Doubles that are exact\<close>

lemma roundHalfEven_of_int: "roundHalfEven (of_int k) = k"
  by (simp add: roundHalfEven_def)

text \<open>The binade of a number, from its bounds.\<close>

lemma binade:
  assumes "2 powi k \<le> \<bar>x\<bar>" "\<bar>x\<bar> < 2 powi (k + 1)"
  shows "\<lfloor>log 2 \<bar>x\<bar>\<rfloor> = k"
proof -
  have "(0::real) < 2 powi k" by simp
  with assms(1) have pos: "0 < \<bar>x\<bar>" by linarith
  have "(2::real) powr real_of_int k = 2 powi k"
      "(2::real) powr (real_of_int k + 1) = 2 powi (k + 1)"
    using powr_real_of_int' [of "2::real" k] powr_real_of_int' [of "2::real" "k + 1"]
    by simp_all
  then show ?thesis
    using assms floor_log_eq_powr_iff [of "\<bar>x\<bar>" 2 k] pos by simp
qed

lemma binade_exists:
  assumes "x \<noteq> 0"
  shows "2 powi \<lfloor>log 2 \<bar>x\<bar>\<rfloor> \<le> \<bar>x\<bar> \<and> \<bar>x\<bar> < 2 powi (\<lfloor>log 2 \<bar>x\<bar>\<rfloor> + 1)"
proof -
  let ?k = "\<lfloor>log 2 \<bar>x\<bar>\<rfloor>"
  have "(2::real) powr real_of_int ?k = 2 powi ?k"
      "(2::real) powr (real_of_int ?k + 1) = 2 powi (?k + 1)"
    using powr_real_of_int' [of "2::real" ?k] powr_real_of_int' [of "2::real" "?k + 1"]
    by simp_all
  then show ?thesis
    using assms floor_log_eq_powr_iff [of "\<bar>x\<bar>" 2 ?k] by simp
qed

text \<open>Every integer up to \<open>2 ^ 53\<close> in magnitude is a double.\<close>

lemma roundDouble_of_int:
  assumes "\<bar>n\<bar> \<le> 2 ^ 53"
  shows "roundDouble (of_int n) = Num (of_int n)"
proof (cases "n = 0")
  case True
  then show ?thesis by (simp add: roundDouble_def)
next
  case False
  let ?x = "real_of_int n"
  let ?e = "\<lfloor>log 2 \<bar>?x\<bar>\<rfloor>"
  have x0: "?x \<noteq> 0" using False by simp
  have a1: "1 \<le> \<bar>?x\<bar>" using False by (simp flip: of_int_abs)
  have a53: "\<bar>?x\<bar> \<le> 2 ^ 53"
  proof -
    have "real_of_int \<bar>n\<bar> \<le> real_of_int (2 ^ 53)"
      using assms by (simp only: of_int_le_iff)
    then show ?thesis by simp
  qed
  from binade_exists [OF x0]
  have lo: "2 powi ?e \<le> \<bar>?x\<bar>" and hi: "\<bar>?x\<bar> < 2 powi (?e + 1)"
    by simp_all
  have e0: "0 \<le> ?e" using a1 by simp
  have e53: "?e \<le> 53"
  proof (rule ccontr)
    assume "\<not> ?e \<le> 53"
    then have "54 \<le> ?e" by simp
    then have "(2::real) powi 54 \<le> 2 powi ?e"
      by (intro power_int_increasing) simp_all
    with lo a53 show False by simp
  qed
  have q: "quantum ?x = ?e - 52"
    using e0 by (simp add: quantum_def)
  have "\<exists>k. ?x / 2 powi (?e - 52) = of_int k"
  proof (cases "?e \<le> 52")
    case True
    then have "(2::real) powi (?e - 52) = inverse (2 ^ nat (52 - ?e))"
      by (cases "?e = 52") (simp_all add: power_int_def power_one_over inverse_eq_divide)
    then have "?x / 2 powi (?e - 52) = of_int (n * 2 ^ nat (52 - ?e))"
      by (simp add: field_simps)
    then show ?thesis by blast
  next
    case False
    from False e53 have e: "?e = 53" by linarith
    with lo a53 have "\<bar>?x\<bar> = 2 ^ 53" by simp
    then have "\<bar>n\<bar> = 2 ^ 53"
      by (metis of_int_abs of_int_eq_iff of_int_numeral of_int_power)
    then have "even n"
      by (metis even_abs_add_iff even_add even_numeral even_power zero_less_numeral)
    then obtain k where "n = 2 * k" by (auto elim: evenE)
    then have "?x / 2 powi (?e - 52) = of_int k" using e by simp
    then show ?thesis by blast
  qed
  then obtain k where k: "?x / 2 powi (?e - 52) = of_int k" by blast
  have nz: "(2::real) powi (?e - 52) \<noteq> 0" by simp
  have y: "of_int (roundHalfEven (?x / 2 powi (?e - 52))) * 2 powi (?e - 52) = ?x"
  proof -
    have "roundHalfEven (?x / 2 powi (?e - 52)) = k"
      by (simp only: k roundHalfEven_of_int)
    then have "of_int (roundHalfEven (?x / 2 powi (?e - 52))) * 2 powi (?e - 52)
        = of_int k * 2 powi (?e - 52)"
      by (simp only:)
    also have "\<dots> = (?x / 2 powi (?e - 52)) * 2 powi (?e - 52)"
      by (simp only: k)
    also have "\<dots> = ?x"
      using nz by simp
    finally show ?thesis .
  qed
  have "\<bar>?x\<bar> < 2 ^ 1024"
    using a53 by (rule order_le_less_trans) simp
  then show ?thesis
    using x0 by (simp add: roundDouble_def q y Let_def)
qed

lemma Nats_nonneg: "(x::real) \<in> \<nat> \<Longrightarrow> 0 \<le> x"
  by (auto simp: Nats_def)

lemma sum_list_heights_Nats:
  "\<forall>s \<in> set ms. seg_height s \<in> \<nat> \<Longrightarrow> sum_list (map seg_height ms) \<in> \<nat>"
  by (induction ms) (simp_all add: Nats_add)

lemma roundDouble_nat:
  assumes "x \<in> \<nat>" "x \<le> 2 ^ 53"
  shows "roundDouble x = Num x"
proof -
  from assms(1) obtain k :: nat where k: "x = real k" by (auto elim: Nats_cases)
  have "\<bar>int k\<bar> \<le> 2 ^ 53"
  proof -
    have "real k \<le> real (2 ^ 53)" using assms(2) k by simp
    then have "k \<le> 2 ^ 53" by (simp only: of_nat_le_iff)
    then show ?thesis by simp
  qed
  from roundDouble_of_int [OF this] show ?thesis by (simp add: k)
qed

text \<open>Beyond \<open>2 ^ 53\<close> integers are rounded: \<open>2 ^ 53 + 1\<close> is a tie and goes to \<open>2 ^ 53\<close>.\<close>

lemma roundDouble_tie: "roundDouble (2 ^ 53 + 1) = Num (2 ^ 53)"
proof -
  have e: "\<lfloor>log 2 (9007199254740993 :: real)\<rfloor> = 53"
    using binade [of 53 "9007199254740993 :: real"] by simp
  have q: "quantum (9007199254740993 :: real) = 1"
    by (simp add: quantum_def e)
  have r: "roundHalfEven (9007199254740993 / 2) = 4503599627370496"
    by (simp add: roundHalfEven_def Let_def)
  have "roundDouble (9007199254740993 :: real) = Num 9007199254740992"
    by (simp add: roundDouble_def q r Let_def)
  then show ?thesis by simp
qed

text \<open>Rounding a number of a known binade.\<close>

lemma roundDouble_binade:
  assumes "2 powi k \<le> \<bar>x\<bar>" "\<bar>x\<bar> < 2 powi (k + 1)" "- 1022 \<le> k"
      and "roundHalfEven (x / 2 powi (k - 52)) = n"
      and "\<bar>of_int n * 2 powi (k - 52)\<bar> < (2::real) ^ 1024"
  shows "roundDouble x = Num (of_int n * 2 powi (k - 52))"
proof -
  have "(0::real) < 2 powi k" by simp
  with assms(1) have x: "x \<noteq> 0" by linarith
  have q: "quantum x = k - 52"
    using binade [OF assms(1,2)] assms(3) by (simp add: quantum_def)
  show ?thesis
    using x assms(4,5) by (simp add: roundDouble_def Let_def q)
qed

lemma powi_minus_44: "(2::real) powi (- 44) = 1 / 17592186044416"
  by (simp add: power_int_def power_one_over inverse_eq_divide)

lemma powi_minus_45: "(2::real) powi (- 45) = 1 / 35184372088832"
  by (simp add: power_int_def power_one_over inverse_eq_divide)

lemma powi_minus_53: "(2::real) powi (- 53) = 1 / 9007199254740992"
  by (simp add: power_int_def power_one_over inverse_eq_divide)

lemma roundDouble_half: "roundDouble (1 / 2) = Num (1 / 2)"
  using roundDouble_binade [of "- 1" "1 / 2" 4503599627370496]
    roundHalfEven_of_int [of 4503599627370496]
  by (simp add: powi_minus_53)

text \<open>
  With \<open>a = 8282401189711053 / 2 ^ 45\<close> and \<open>b = 3398810343781171 / 2 ^ 46\<close>, the
  doubles nearest to 235.4 and to 48.3: \<open>a\<close> is a double, the sum \<open>a + b\<close> (the
  second fraction below) is rounded to \<open>c = 4990903180800819 / 2 ^ 44\<close>, and \<open>c - b\<close>
  (the third fraction) is a tie that is rounded to the double just below \<open>a\<close>.
\<close>

lemma roundDouble_fractions:
  "roundDouble (8282401189711053 / 35184372088832) = Num (8282401189711053 / 35184372088832)"
  "roundDouble (19963612723203277 / 70368744177664) = Num (4990903180800819 / 17592186044416)"
  "roundDouble (16564802379422105 / 70368744177664) = Num (8282401189711052 / 35184372088832)"
  using roundDouble_binade [of 7 "8282401189711053 / 35184372088832" 8282401189711053]
    roundDouble_binade [of 8 "19963612723203277 / 70368744177664" 4990903180800819]
    roundDouble_binade [of 7 "16564802379422105 / 70368744177664" 8282401189711052]
  by (simp_all add: powi_minus_44 powi_minus_45 roundHalfEven_def Let_def)

section \<open>Timeline height and scroll extent\<close>

text \<open>
  With whole, non-negative heights and a total of at most \<open>2 ^ 53\<close> every addition of
  the \<open>reduce\<close> is exact.
\<close>

lemma foldl_heights_exact:
  assumes "\<forall>s \<in> set ms. seg_height s \<in> \<nat>" "acc \<in> \<nat>"
    "acc + sum_list (map seg_height ms) \<le> 2 ^ 53"
  shows "foldl (\<lambda>accumulator b. jadd accumulator (Num (seg_height b))) (Num acc) ms
     = Num (acc + sum_list (map seg_height ms))"
  using assms
proof (induction ms arbitrary: acc)
  case Nil
  then show ?case by simp
next
  case (Cons s ms)
  have h: "seg_height s \<in> \<nat>" and rest: "\<forall>t \<in> set ms. seg_height t \<in> \<nat>"
    using Cons.prems(1) by simp_all
  have "\<forall>t \<in> set ms. 0 \<le> seg_height t"
    using rest by (simp add: Nats_nonneg)
  then have nonneg: "0 \<le> sum_list (map seg_height ms)"
    by (intro sum_list_nonneg) auto
  have acc': "acc + seg_height s \<in> \<nat>"
    using Cons.prems(2) h by (rule Nats_add)
  have bound: "acc + seg_height s + sum_list (map seg_height ms) \<le> 2 ^ 53"
    using Cons.prems(3) by (simp add: add.assoc)
  have "acc + seg_height s \<le> 2 ^ 53"
    using bound nonneg by linarith
  then have step: "jadd (Num acc) (Num (seg_height s)) = Num (acc + seg_height s)"
    using acc' by (simp add: roundDouble_nat)
  from Cons.IH [OF rest acc' bound] step show ?case
    by (simp add: add.assoc)
qed

lemma timelineHeight_whole:
  assumes heights: "\<forall>s \<in> set (months m). seg_height s \<in> \<nat>"
      and top: "topSectionHeight m \<in> \<nat>"
      and bound: "sum_list (map seg_height (months m)) + topSectionHeight m \<le> 2 ^ 53"
  shows "timelineHeight m = Num (sum_list (map seg_height (months m)) + topSectionHeight m)"
    and "jsub (timelineHeight m) (Num (topSectionHeight m))
      = Num (sum_list (map seg_height (months m)))"
proof -
  let ?sum = "sum_list (map seg_height (months m))"
  have "\<forall>t \<in> set (months m). 0 \<le> seg_height t"
    using heights by (simp add: Nats_nonneg)
  then have nonneg: "0 \<le> ?sum"
    by (intro sum_list_nonneg) auto
  have top0: "0 \<le> topSectionHeight m"
    using top by (rule Nats_nonneg)
  have sumN: "?sum \<in> \<nat>"
    using heights by (rule sum_list_heights_Nats)
  have "0 + ?sum \<le> 2 ^ 53" using bound top0 by linarith
  from foldl_heights_exact [OF heights Nats_0 this]
  have fold: "foldl (\<lambda>accumulator b. jadd accumulator (Num (seg_height b))) (Num 0) (months m)
      = Num ?sum"
    by simp
  have "roundDouble (?sum + topSectionHeight m) = Num (?sum + topSectionHeight m)"
    using sumN top bound by (intro roundDouble_nat Nats_add)
  then show whole: "timelineHeight m = Num (?sum + topSectionHeight m)"
    by (simp add: timelineHeight_def fold)
  have "roundDouble ?sum = Num ?sum"
    using sumN bound top0 by (intro roundDouble_nat) simp_all
  then show "jsub (timelineHeight m) (Num (topSectionHeight m)) = Num ?sum"
    by (simp add: whole jsub_def)
qed

text \<open>
  Claim C3, as stated: the sum of the segment heights plus the gaps between the segments
  equals \<open>timelineHeight - topSectionHeight\<close>. With two segments of height 100 and the
  default gap of 12 the left side is 212 and the right side is 200: \<open>timelineHeight\<close>
  has no term for gaps. With one segment of height 235.4 under a top section of 48.3
  there is no gap, and the right side is 235.39999999999998, the double just below the
  height: the additions of \<open>timelineHeight\<close> and the subtraction are rounded.
\<close>

theorem timelineHeight_gaps_counterexample:
  "jsub (timelineHeight twoSegments) (Num (topSectionHeight twoSegments)) = Num 200
   \<and> sum_list (map seg_height (months twoSegments)) + segmentGaps twoSegments = 212
   \<and> jsub (timelineHeight fractional) (Num (topSectionHeight fractional))
       = Num (8282401189711052 / 2 ^ 45)
   \<and> sum_list (map seg_height (months fractional)) + segmentGaps fractional
       = 8282401189711053 / 2 ^ 45"
proof -
  have hs: "map seg_height (months twoSegments) = [100, 100]"
      "topSectionHeight twoSegments = 0" "gap twoSegments = 12"
    by (simp_all add: twoSegments_def newManager_def loadedSegment_def)
  have "\<forall>s \<in> set (months twoSegments). seg_height s \<in> \<nat>"
    by (simp add: twoSegments_def newManager_def loadedSegment_def)
  moreover have "topSectionHeight twoSegments \<in> \<nat>"
    by (simp add: hs)
  moreover have "sum_list (map seg_height (months twoSegments)) + topSectionHeight twoSegments
      \<le> 2 ^ 53"
    by (simp add: hs)
  ultimately have "jsub (timelineHeight twoSegments) (Num (topSectionHeight twoSegments))
      = Num (sum_list (map seg_height (months twoSegments)))"
    by (rule timelineHeight_whole(2))
  moreover have "length (months twoSegments) = 2"
    by (simp add: twoSegments_def)
  ultimately have two: "jsub (timelineHeight twoSegments) (Num (topSectionHeight twoSegments))
      = Num 200"
      "sum_list (map seg_height (months twoSegments)) + segmentGaps twoSegments = 212"
    by (simp_all add: hs segmentGaps_def)
  have fs: "map seg_height (months fractional) = [8282401189711053 / 35184372088832]"
      "topSectionHeight fractional = 3398810343781171 / 70368744177664"
      "length (months fractional) = 1"
    by (simp_all add: fractional_def newManager_def loadedSegment_def)
  have h: "seg_height (loadedSegment [''a''] (8282401189711053 / 35184372088832))
      = 8282401189711053 / 35184372088832"
    by (simp add: loadedSegment_def)
  have ms: "months fractional = [loadedSegment [''a''] (8282401189711053 / 35184372088832)]"
    by (simp add: fractional_def)
  have tl: "timelineHeight fractional = Num (4990903180800819 / 17592186044416)"
    by (simp add: timelineHeight_def ms h fs(2) roundDouble_fractions)
  have "jsub (timelineHeight fractional) (Num (topSectionHeight fractional))
      = Num (8282401189711052 / 35184372088832)"
    using roundDouble_fractions(3) by (simp add: tl fs(2) jsub_def)
  then have frac: "jsub (timelineHeight fractional) (Num (topSectionHeight fractional))
      = Num (8282401189711052 / 2 ^ 45)"
      "sum_list (map seg_height (months fractional)) + segmentGaps fractional
      = 8282401189711053 / 2 ^ 45"
    by (simp_all add: fs segmentGaps_def)
  from two frac show ?thesis by blast
qed

text \<open>
  Whole numbers are rounded as well once they pass \<open>2 ^ 53\<close>: for one segment of
  height 1 under a top section of \<open>2 ^ 53\<close> the timeline height is \<open>2 ^ 53\<close>, and
  taking the top section off again leaves 0.
\<close>

lemma timelineHeight_rounded:
  "timelineHeight hugeTop = Num (2 ^ 53)
   \<and> jsub (timelineHeight hugeTop) (Num (topSectionHeight hugeTop)) = Num 0
   \<and> sum_list (map seg_height (months hugeTop)) = 1"
proof -
  have one: "roundDouble 1 = Num 1"
    using roundDouble_of_int [of 1] by simp
  have tie: "roundDouble 9007199254740993 = Num 9007199254740992"
    using roundDouble_tie by simp
  have "timelineHeight hugeTop = Num 9007199254740992"
    by (simp add: timelineHeight_def hugeTop_def newManager_def loadedSegment_def one tie)
  then show ?thesis
    by (simp add: jsub_def roundDouble_def)
      (simp add: hugeTop_def newManager_def loadedSegment_def)
qed

text \<open>
  Claim C3, amended: where the segment heights and \<open>topSectionHeight\<close> are whole,
  non-negative numbers that add up to at most \<open>2 ^ 53\<close>, so that no addition is
  rounded, \<open>timelineHeight\<close> is the sum of the segment heights plus
  \<open>topSectionHeight\<close>, and the sum of the segment heights, with no term for gaps,
  equals \<open>timelineHeight - topSectionHeight\<close>.
\<close>

theorem timelineHeight_is_segment_sum:
  assumes "\<forall>s \<in> set (months m). seg_height s \<in> \<nat>"
      and "topSectionHeight m \<in> \<nat>"
      and "sum_list (map seg_height (months m)) + topSectionHeight m \<le> 2 ^ 53"
  shows "timelineHeight m = Num (sum_list (map seg_height (months m)) + topSectionHeight m)
     \<and> jsub (timelineHeight m) (Num (topSectionHeight m))
         = Num (sum_list (map seg_height (months m)))"
  using timelineHeight_whole [OF assms] by simp

theorem timelineHeight_is_segment_sum_witness:
  "timelineHeight wholePixels = Num 753
   \<and> jsub (timelineHeight wholePixels) (Num (topSectionHeight wholePixels)) = Num 705"
proof -
  have hs: "map seg_height (months wholePixels) = [235, 470]" "topSectionHeight wholePixels = 48"
    by (simp_all add: wholePixels_def newManager_def loadedSegment_def)
  have a: "\<forall>s \<in> set (months wholePixels). seg_height s \<in> \<nat>"
    by (simp add: wholePixels_def newManager_def loadedSegment_def)
  have b: "topSectionHeight wholePixels \<in> \<nat>"
    by (simp add: hs)
  have c: "sum_list (map seg_height (months wholePixels)) + topSectionHeight wholePixels \<le> 2 ^ 53"
    by (simp add: hs)
  have s: "sum_list (map seg_height (months wholePixels)) = 705"
    by (simp add: hs)
  note inst = timelineHeight_is_segment_sum [OF a b c, unfolded s hs(2)]
  have "timelineHeight wholePixels = Num 753"
    using conjunct1 [OF inst] by simp
  moreover have "jsub (timelineHeight wholePixels) (Num (topSectionHeight wholePixels)) = Num 705"
    using conjunct2 [OF inst] by (simp only: hs(2))
  ultimately show ?thesis by blast
qed

text \<open>
  Claim C9. \<open>getMaxScroll\<close> is to be \<open>topSectionHeight + bottomSectionHeight\<close> plus the
  total segment height minus the viewport height, and \<open>getMaxScrollPercent\<close> that
  extent relative to the total height. \<open>timelineHeight\<close> already contains
  \<open>topSectionHeight\<close>, and both functions add it once more. For the simple manager
  with a top section of 10 and a viewport height of 40 (bottom section 60, its one
  segment of height 0) the claim gives an extent of \<open>10 + 60 + 0 - 40 = 30\<close> of a total
  height of 70; \<open>getMaxScroll\<close> returns 40 and \<open>getMaxScrollPercent\<close> returns
  \<open>40 / 80\<close>.
\<close>

theorem getMaxScroll_counts_top_twice:
  "getMaxScroll simpleWithTop = Num 40
   \<and> getMaxScrollPercent simpleWithTop = Num (1 / 2)
   \<and> topSectionHeight simpleWithTop + bottomSectionHeight simpleWithTop
       + sum_list (map seg_height (months simpleWithTop)) - viewportHeight simpleWithTop = 30
   \<and> topSectionHeight simpleWithTop + bottomSectionHeight simpleWithTop
       + sum_list (map seg_height (months simpleWithTop)) = 70"
proof -
  have r: "roundDouble 0 = Num 0" "roundDouble 10 = Num 10" "roundDouble 70 = Num 70"
      "roundDouble 80 = Num 80" "roundDouble 40 = Num 40" "roundDouble (- 30) = Num (- 30)"
    using roundDouble_of_int [of 0] roundDouble_of_int [of 10] roundDouble_of_int [of 70]
      roundDouble_of_int [of 80] roundDouble_of_int [of 40] roundDouble_of_int [of "- 30"]
    by simp_all
  have fields: "topSectionHeight simpleWithTop = 10" "bottomSectionHeight simpleWithTop = 60"
      "viewportHeight simpleWithTop = 40" "map seg_height (months simpleWithTop) = [0]"
    by (simp_all add: simpleWithTop_def newManager_def createSimpleSegment_def)
  have tl: "timelineHeight simpleWithTop = Num 10"
    by (simp add: timelineHeight_def simpleWithTop_def newManager_def createSimpleSegment_def r)
  have a: "getMaxScroll simpleWithTop = Num 40"
    by (simp add: getMaxScroll_def tl jsub_def fields r)
  have b: "getMaxScrollPercent simpleWithTop = Num (1 / 2)"
    by (simp add: getMaxScrollPercent_def tl jsub_def fields r roundDouble_half Let_def)
  from a b show ?thesis by (simp add: fields)
qed

section \<open>The intersection scan does not re-enter\<close>

lemma updateIntersections_busy:
  "updatingIntersections m \<Longrightarrow> updateIntersections ui m = m"
  by (simp add: updateIntersections_def)

lemma updateIntersections_clears:
  "\<not> updatingIntersections m \<Longrightarrow> \<not> updatingIntersections (updateIntersections ui m)"
  by (simp add: updateIntersections_def)

text \<open>
  While the flag is set, a month update that calls \<open>updateIntersections\<close> again does
  what the month update alone does.
\<close>

lemma fold_reentrant_scan:
  assumes pres: "\<And>m i. updatingIntersections (h m i) = updatingIntersections m"
  shows "updatingIntersections m \<Longrightarrow>
     fold (\<lambda>i m'. updateIntersections g (h m' i)) js m = fold (\<lambda>i m'. h m' i) js m"
proof (induction js arbitrary: m)
  case Nil
  then show ?case by simp
next
  case (Cons j js)
  have busy: "updatingIntersections (h m j)"
    using Cons.prems pres by simp
  then have "updateIntersections g (h m j) = h m j"
    by (rule updateIntersections_busy)
  with Cons.IH [OF busy] show ?case by simp
qed

lemma updateIntersections_nested:
  assumes pres: "\<And>m i. updatingIntersections (h m i) = updatingIntersections m"
  shows "updateIntersections (\<lambda>m i. updateIntersections g (h m i)) m = updateIntersections h m"
proof (cases "updatingIntersections m \<or> \<not> isInitialized m
         \<or> vw_bottom (visibleWindow m) = vw_top (visibleWindow m)")
  case True
  then show ?thesis by (simp add: updateIntersections_def)
next
  case False
  have "fold (\<lambda>i m'. updateIntersections g (h m' i)) [0..<length (months m)]
            (m\<lparr>updatingIntersections := True\<rparr>)
      = fold (\<lambda>i m'. h m' i) [0..<length (months m)] (m\<lparr>updatingIntersections := True\<rparr>)"
    by (rule fold_reentrant_scan [OF pres]) simp
  with False show ?thesis by (simp add: updateIntersections_def forEachMonth_def)
qed

text \<open>
  Claim C8. An \<open>updateIntersections\<close> entered while the busy flag is set returns the
  manager unchanged; a scan entered with the flag clear leaves it clear when it ends;
  and a scan whose month update \<open>h\<close> (which, like every code outside the class, leaves
  the private flag alone) is followed by a nested \<open>updateIntersections\<close> is the scan
  with \<open>h\<close> alone: the nested calls are suppressed, not recursed into.
\<close>

theorem updateIntersections_reentrancy:
  "(updatingIntersections m \<longrightarrow> updateIntersections ui m = m)
   \<and> (\<not> updatingIntersections m \<longrightarrow> \<not> updatingIntersections (updateIntersections ui m))
   \<and> ((\<forall>m i. updatingIntersections (h m i) = updatingIntersections m) \<longrightarrow>
        updateIntersections (\<lambda>m i. updateIntersections g (h m i)) m = updateIntersections h m)"
  using updateIntersections_busy [of m ui] updateIntersections_clears [of m ui]
    updateIntersections_nested [of h g m] by blast

lemma windowIntersection_flag:
  "updatingIntersections (windowIntersection m i) = updatingIntersections m"
  by (simp add: windowIntersection_def)

theorem updateIntersections_reentrancy_witness:
  "updatingIntersections scanning
   \<and> updateIntersections windowIntersection scanning = scanning
   \<and> \<not> updatingIntersections idle
   \<and> \<not> updatingIntersections (updateIntersections windowIntersection idle)
   \<and> updateIntersections (\<lambda>m i. updateIntersections windowIntersection (windowIntersection m i)) idle
       = updateIntersections windowIntersection idle
   \<and> map intersecting (months (updateIntersections windowIntersection idle)) = [True, True]"
proof -
  have pres: "\<forall>m :: segment manager. \<forall>i.
      updatingIntersections (windowIntersection m i) = updatingIntersections m"
    by (simp add: windowIntersection_flag)
  have busy: "updatingIntersections scanning"
    by (simp add: scanning_def)
  have free: "\<not> updatingIntersections idle"
    by (simp add: idle_def)
  have scan: "map intersecting (months (updateIntersections windowIntersection idle)) = [True, True]"
    by (simp add: updateIntersections_def forEachMonth_def idle_def scanning_def newManager_def
        visibleWindow_def windowIntersection_def mkSegment_def createSimpleSegment_def upt_rec)
  from updateIntersections_reentrancy
         [of scanning windowIntersection windowIntersection windowIntersection]
       updateIntersections_reentrancy
         [of idle windowIntersection windowIntersection windowIntersection]
       pres busy free scan
  show ?thesis by blast
qed


section \<open>Range retrieval\<close>












section \<open>Removing assets\<close>

lemma splice1_take: "k \<le> length xs \<Longrightarrow> take k (splice1 k xs) = take k xs"
  by (simp add: splice1_def)

lemma splice1_drop: "k < length xs \<Longrightarrow> drop k (splice1 k xs) = drop (Suc k) xs"
  by (simp add: splice1_def)

text \<open>
  The backward loop, entered at any index within the list: the wrappers below the index
  that are in the set are gone, and their ids were pushed from the highest index down.
\<close>

lemma removeLoop_filter:
  "k \<le> length vas \<Longrightarrow>
   removeLoop S k vas r =
     (filter (\<lambda>v. va_id v \<notin> S) (take k vas) @ drop k vas,
      r @ rev (filter (\<lambda>i. i \<in> S) (map va_id (take k vas))))"
proof (induction k arbitrary: vas r)
  case 0
  then show ?case by simp
next
  case (Suc k)
  then have lt: "k < length vas" by simp
  have tk: "take (Suc k) vas = take k vas @ [vas ! k]"
    using lt by (simp add: take_Suc_conv_app_nth)
  show ?case
  proof (cases "asset_id (va_asset (vas ! k)) \<in> S")
    case True
    have len: "k \<le> length (splice1 k vas)"
      using lt by (simp add: splice1_def)
    from Suc.IH [OF len] True lt show ?thesis
      by (simp add: tk splice1_take splice1_drop va_id_def)
  next
    case False
    have "k \<le> length vas" using lt by simp
    from Suc.IH [OF this] False lt show ?thesis
      by (simp add: tk va_id_def Cons_nth_drop_Suc)
  qed
qed

lemma removeLoop_whole:
  "removeLoop S (length vas) vas r =
     (filter (\<lambda>v. va_id v \<notin> S) vas, r @ rev (filter (\<lambda>i. i \<in> S) (map va_id vas)))"
  using removeLoop_filter [of "length vas" vas S r] by simp

lemma removeFromSegments_Cons:
  "removeFromSegments S layout (s # rest) r =
     (let r' = r @ rev (filter (\<lambda>i. i \<in> S) (map va_id (viewerAssets s)));
          s' = s\<lparr>viewerAssets := filter (\<lambda>v. va_id v \<notin> S) (viewerAssets s)\<rparr>
      in ((if r' \<noteq> [] then layout s' else s') # fst (removeFromSegments S layout rest r'),
          snd (removeFromSegments S layout rest r')))"
  by (simp add: removeLoop_whole Let_def split_beta)

lemma removeFromSegments_removed:
  "snd (removeFromSegments S layout ms r) =
     r @ concat (map (\<lambda>s. rev (filter (\<lambda>i. i \<in> S) (map va_id (viewerAssets s)))) ms)"
proof (induction ms arbitrary: r)
  case Nil
  then show ?case by simp
next
  case (Cons s rest)
  show ?case
    unfolding removeFromSegments_Cons Let_def
    by (simp add: Cons.IH)
qed

lemma removeFromSegments_ids:
  assumes lay: "\<forall>s. map va_id (viewerAssets (layout s)) = map va_id (viewerAssets s)"
  shows "map (\<lambda>s. map va_id (viewerAssets s)) (fst (removeFromSegments S layout ms r)) =
     map (\<lambda>s. filter (\<lambda>i. i \<notin> S) (map va_id (viewerAssets s))) ms"
proof (induction ms arbitrary: r)
  case Nil
  then show ?case by simp
next
  case (Cons s rest)
  show ?case
    unfolding removeFromSegments_Cons Let_def
    by (simp add: Cons.IH lay filter_map comp_def)
qed

text \<open>
  A segment is laid out as soon as \<open>removedIds\<close> is not empty, that is, when the segment
  itself or one before it lost an item.
\<close>

lemma removeFromSegments_layout:
  "j < length ms \<Longrightarrow>
   fst (removeFromSegments S layout ms r) ! j =
     (if r \<noteq> [] \<or> (\<exists>k\<le>j. \<exists>v \<in> set (viewerAssets (ms ! k)). va_id v \<in> S)
      then layout ((ms ! j)\<lparr>viewerAssets := filter (\<lambda>v. va_id v \<notin> S) (viewerAssets (ms ! j))\<rparr>)
      else (ms ! j)\<lparr>viewerAssets := filter (\<lambda>v. va_id v \<notin> S) (viewerAssets (ms ! j))\<rparr>)"
proof (induction ms arbitrary: r j)
  case Nil
  then show ?case by simp
next
  case (Cons s rest)
  let ?r' = "r @ rev (filter (\<lambda>i. i \<in> S) (map va_id (viewerAssets s)))"
  have hit: "?r' \<noteq> [] \<longleftrightarrow> r \<noteq> [] \<or> (\<exists>v \<in> set (viewerAssets s). va_id v \<in> S)"
    by (auto simp: filter_empty_conv)
  show ?case
  proof (cases j)
    case 0
    then show ?thesis
      unfolding removeFromSegments_Cons Let_def using hit by simp
  next
    case (Suc j')
    then have j': "j' < length rest" using Cons.prems by simp
    have ex: "(\<exists>k\<le>Suc j'. \<exists>v \<in> set (viewerAssets ((s # rest) ! k)). va_id v \<in> S) \<longleftrightarrow>
        (\<exists>v \<in> set (viewerAssets s). va_id v \<in> S)
        \<or> (\<exists>k\<le>j'. \<exists>v \<in> set (viewerAssets (rest ! k)). va_id v \<in> S)"
      (is "?L \<longleftrightarrow> ?A \<or> ?B")
    proof
      assume ?L
      then obtain k where k: "k \<le> Suc j'"
          "\<exists>v \<in> set (viewerAssets ((s # rest) ! k)). va_id v \<in> S"
        by blast
      show "?A \<or> ?B"
      proof (cases k)
        case 0
        with k show ?thesis by simp
      next
        case (Suc k')
        with k have "k' \<le> j'" "\<exists>v \<in> set (viewerAssets (rest ! k')). va_id v \<in> S"
          by simp_all
        then show ?thesis by blast
      qed
    next
      assume "?A \<or> ?B"
      then show ?L
      proof
        assume ?A
        then have "\<exists>v \<in> set (viewerAssets ((s # rest) ! 0)). va_id v \<in> S" by simp
        then show ?L by blast
      next
        assume ?B
        then obtain k where "k \<le> j'" "\<exists>v \<in> set (viewerAssets (rest ! k)). va_id v \<in> S"
          by blast
        then have "Suc k \<le> Suc j'"
            "\<exists>v \<in> set (viewerAssets ((s # rest) ! Suc k)). va_id v \<in> S"
          by simp_all
        then show ?L by blast
      qed
    qed
    have ih: "fst (removeFromSegments S layout rest ?r') ! j' =
        (if ?r' \<noteq> [] \<or> (\<exists>k\<le>j'. \<exists>v \<in> set (viewerAssets (rest ! k)). va_id v \<in> S)
         then layout ((rest ! j')\<lparr>viewerAssets :=
                filter (\<lambda>v. va_id v \<notin> S) (viewerAssets (rest ! j'))\<rparr>)
         else (rest ! j')\<lparr>viewerAssets :=
                filter (\<lambda>v. va_id v \<notin> S) (viewerAssets (rest ! j'))\<rparr>)"
      by (rule Cons.IH [OF j'])
    have cond: "(?r' \<noteq> [] \<or> (\<exists>k\<le>j'. \<exists>v \<in> set (viewerAssets (rest ! k)). va_id v \<in> S)) \<longleftrightarrow>
        (r \<noteq> [] \<or> (\<exists>k\<le>Suc j'. \<exists>v \<in> set (viewerAssets ((s # rest) ! k)). va_id v \<in> S))"
      using hit ex by blast
    have lhs: "fst (removeFromSegments S layout (s # rest) r) ! Suc j' =
        fst (removeFromSegments S layout rest ?r') ! j'"
      unfolding removeFromSegments_Cons Let_def by simp
    show ?thesis
      unfolding Suc lhs ih cond by simp blast
  qed
qed

lemma removeFromSegments_length:
  "length (fst (removeFromSegments S layout ms r)) = length ms"
proof (induction ms arbitrary: r)
  case Nil
  then show ?case by simp
next
  case (Cons s rest)
  show ?case
    unfolding removeFromSegments_Cons Let_def by (simp add: Cons.IH)
qed

lemma upto_index: "j < length ms \<Longrightarrow> (\<exists>k\<le>j. P (ms ! k)) \<longleftrightarrow> (\<exists>s \<in> set (take (Suc j) ms). P s)"
proof
  assume j: "j < length ms" and "\<exists>k\<le>j. P (ms ! k)"
  then obtain k where k: "k \<le> j" "P (ms ! k)" by blast
  then have "ms ! k \<in> set (take (Suc j) ms)"
    using j by (auto simp: in_set_conv_nth intro!: exI [of _ k])
  with k show "\<exists>s \<in> set (take (Suc j) ms). P s" by blast
next
  assume j: "j < length ms" and "\<exists>s \<in> set (take (Suc j) ms). P s"
  then obtain s where s: "s \<in> set (take (Suc j) ms)" "P s" by blast
  then obtain k where "k < length (take (Suc j) ms)" "take (Suc j) ms ! k = s"
    by (auto simp: in_set_conv_nth)
  then have "k \<le> j" "ms ! k = s" using j by simp_all
  with s show "\<exists>k\<le>j. P (ms ! k)" by blast
qed

text \<open>The segments after the loop, one by one.\<close>

lemma removeFromSegments_months:
  "fst (removeFromSegments S layout ms []) =
     map (\<lambda>j. if \<exists>s \<in> set (take (Suc j) ms). \<exists>v \<in> set (viewerAssets s). va_id v \<in> S
              then layout ((ms ! j)\<lparr>viewerAssets := filter (\<lambda>v. va_id v \<notin> S) (viewerAssets (ms ! j))\<rparr>)
              else (ms ! j)\<lparr>viewerAssets := filter (\<lambda>v. va_id v \<notin> S) (viewerAssets (ms ! j))\<rparr>)
       [0..<length ms]"
proof (rule nth_equalityI)
  show "length (fst (removeFromSegments S layout ms [])) = length (map (\<lambda>j.
      if \<exists>s \<in> set (take (Suc j) ms). \<exists>v \<in> set (viewerAssets s). va_id v \<in> S
      then layout ((ms ! j)\<lparr>viewerAssets := filter (\<lambda>v. va_id v \<notin> S) (viewerAssets (ms ! j))\<rparr>)
      else (ms ! j)\<lparr>viewerAssets := filter (\<lambda>v. va_id v \<notin> S) (viewerAssets (ms ! j))\<rparr>)
      [0..<length ms])"
    by (simp add: removeFromSegments_length)
next
  fix j
  assume "j < length (fst (removeFromSegments S layout ms []))"
  then have j: "j < length ms" by (simp add: removeFromSegments_length)
  show "fst (removeFromSegments S layout ms []) ! j = map (\<lambda>j.
      if \<exists>s \<in> set (take (Suc j) ms). \<exists>v \<in> set (viewerAssets s). va_id v \<in> S
      then layout ((ms ! j)\<lparr>viewerAssets := filter (\<lambda>v. va_id v \<notin> S) (viewerAssets (ms ! j))\<rparr>)
      else (ms ! j)\<lparr>viewerAssets := filter (\<lambda>v. va_id v \<notin> S) (viewerAssets (ms ! j))\<rparr>)
      [0..<length ms] ! j"
    using j removeFromSegments_layout [OF j, of S layout "[]"]
      upto_index [OF j, of "\<lambda>s. \<exists>v \<in> set (viewerAssets s). va_id v \<in> S"]
    by simp
qed

lemma removeFromSegments_none:
  assumes "\<forall>s \<in> set ms. \<forall>v \<in> set (viewerAssets s). va_id v \<notin> S"
  shows "fst (removeFromSegments S layout ms []) = ms"
proof -
  have "\<And>j. j < length ms \<Longrightarrow>
      \<not> (\<exists>s \<in> set (take (Suc j) ms). \<exists>v \<in> set (viewerAssets s). va_id v \<in> S)"
    using assms by (meson in_set_takeD)
  moreover have "\<And>j. j < length ms \<Longrightarrow>
      (ms ! j)\<lparr>viewerAssets := filter (\<lambda>v. va_id v \<notin> S) (viewerAssets (ms ! j))\<rparr> = ms ! j"
  proof -
    fix j
    assume "j < length ms"
    then have "ms ! j \<in> set ms" by simp
    with assms have "filter (\<lambda>v. va_id v \<notin> S) (viewerAssets (ms ! j)) = viewerAssets (ms ! j)"
      by (simp add: filter_id_conv)
    then show "(ms ! j)\<lparr>viewerAssets := filter (\<lambda>v. va_id v \<notin> S) (viewerAssets (ms ! j))\<rparr>
        = ms ! j"
      by simp
  qed
  ultimately have "fst (removeFromSegments S layout ms []) = map (\<lambda>j. ms ! j) [0..<length ms]"
    unfolding removeFromSegments_months by (intro map_cong) simp_all
  then show ?thesis by (simp add: map_nth)
qed

text \<open>The manager after \<open>removeAssets\<close>.\<close>

lemma removeAssets_state:
  "snd (removeAssets ug ui layout assetIds m) =
     (if \<forall>s \<in> set (months m). \<forall>v \<in> set (viewerAssets s). va_id v \<notin> set assetIds then m
      else updateViewportGeometry ug ui False
             (m\<lparr>months := fst (removeFromSegments (set assetIds) layout (months m) [])\<rparr>))"
proof -
  have hit: "snd (removeFromSegments (set assetIds) layout (months m) []) = [] \<longleftrightarrow>
      (\<forall>s \<in> set (months m). \<forall>v \<in> set (viewerAssets s). va_id v \<notin> set assetIds)"
    by (auto simp: removeFromSegments_removed filter_empty_conv)
  show ?thesis
  proof (cases "\<forall>s \<in> set (months m). \<forall>v \<in> set (viewerAssets s). va_id v \<notin> set assetIds")
    case True
    with hit have "snd (removeFromSegments (set assetIds) layout (months m) []) = []"
      by blast
    then show ?thesis
      unfolding if_P [OF True]
      by (simp add: removeAssets_def Let_def split_beta removeFromSegments_none [OF True])
  next
    case False
    with hit have "snd (removeFromSegments (set assetIds) layout (months m) []) \<noteq> []"
      by blast
    then show ?thesis
      unfolding if_not_P [OF False]
      by (simp add: removeAssets_def Let_def split_beta)
  qed
qed

lemma fold_itemIds:
  assumes "\<And>m i. itemIds (f m i) = itemIds m"
  shows "itemIds (fold (\<lambda>i m'. f m' i) js m) = itemIds m"
  using assms by (induction js arbitrary: m) simp_all

lemma forEachMonth_itemIds:
  assumes "\<And>m i. itemIds (f m i) = itemIds m"
  shows "itemIds (forEachMonth f m) = itemIds m"
  unfolding forEachMonth_def using assms by (rule fold_itemIds)

lemma itemIds_flag: "itemIds (m\<lparr>updatingIntersections := b\<rparr>) = itemIds m"
  by (simp add: itemIds_def)

lemma updateIntersections_itemIds:
  assumes "\<And>m i. itemIds (ui m i) = itemIds m"
  shows "itemIds (updateIntersections ui m) = itemIds m"
  using forEachMonth_itemIds [of ui, OF assms]
  by (simp add: updateIntersections_def itemIds_flag)

lemma updateViewportGeometry_itemIds:
  assumes ug: "\<And>m i b. itemIds (ug m i b) = itemIds m"
      and ui: "\<And>m i. itemIds (ui m i) = itemIds m"
  shows "itemIds (updateViewportGeometry ug ui b m) = itemIds m"
proof -
  have "itemIds (forEachMonth (\<lambda>m' i. ug m' i b) m) = itemIds m"
    by (rule forEachMonth_itemIds) (rule ug)
  then show ?thesis
    by (simp add: updateViewportGeometry_def updateIntersections_itemIds [of ui, OF ui])
qed

lemma removeAssets_returned:
  "fst (removeAssets ug ui layout assetIds m) =
     filter (\<lambda>i. \<forall>s \<in> set (months m). i \<notin> set (map va_id (viewerAssets s))) assetIds"
proof -
  have "\<And>i. i \<in> set assetIds \<Longrightarrow>
      (i \<notin> set (snd (removeFromSegments (set assetIds) layout (months m) []))) =
      (\<forall>s \<in> set (months m). i \<notin> set (map va_id (viewerAssets s)))"
    by (auto simp: removeFromSegments_removed)
  then show ?thesis
    by (simp add: removeAssets_def Let_def split_beta cong: filter_cong)
qed

lemma removeAssets_itemIds:
  assumes ug: "\<forall>m i b. itemIds (ug m i b) = itemIds m"
      and ui: "\<forall>m i. itemIds (ui m i) = itemIds m"
      and lay: "\<forall>s. map va_id (viewerAssets (layout s)) = map va_id (viewerAssets s)"
  shows "itemIds (snd (removeAssets ug ui layout assetIds m)) =
     map (filter (\<lambda>i. i \<notin> set assetIds)) (itemIds m)"
proof -
  let ?ms = "fst (removeFromSegments (set assetIds) layout (months m) [])"
  have base: "itemIds (m\<lparr>months := ?ms\<rparr>) = map (filter (\<lambda>i. i \<notin> set assetIds)) (itemIds m)"
    using removeFromSegments_ids [OF lay, of "set assetIds" "months m" "[]"]
    by (simp add: itemIds_def comp_def)
  have geo: "itemIds (updateViewportGeometry ug ui False (m\<lparr>months := ?ms\<rparr>))
      = itemIds (m\<lparr>months := ?ms\<rparr>)"
    by (rule updateViewportGeometry_itemIds) (simp_all add: ug ui)
  show ?thesis
    using base geo by (simp add: removeAssets_def Let_def split_beta)
qed

lemma itemIds_retains:
  assumes "itemIds m' = map (filter (\<lambda>i. i \<notin> A)) (itemIds m)"
  shows "\<forall>s \<in> set (months m'). \<forall>v \<in> set (viewerAssets s). va_id v \<notin> A"
proof (intro ballI)
  fix s v
  assume s: "s \<in> set (months m')" and v: "v \<in> set (viewerAssets s)"
  have "map va_id (viewerAssets s) \<in> set (itemIds m')"
    using s by (auto simp: itemIds_def)
  then have "map va_id (viewerAssets s) \<in> set (map (filter (\<lambda>i. i \<notin> A)) (itemIds m))"
    using assms by simp
  then obtain xs where "map va_id (viewerAssets s) = filter (\<lambda>i. i \<notin> A) xs"
    by auto
  moreover have "va_id v \<in> set (map va_id (viewerAssets s))"
    using v by simp
  ultimately show "va_id v \<notin> A" by simp
qed

text \<open>
  Claim C5. \<open>removeAssets(ids)\<close> returns the input ids, in input order, that no
  segment held. Where no segment held a listed id the manager is left as it was.
  Otherwise every segment keeps its items whose id is not listed, every segment from the
  first one that lost an item onwards is laid out (\<open>segment.layout()\<close> is called once
  \<open>removedIds\<close> is not empty, so on every segment that lost an item), and the viewport
  geometry is then updated. \<open>removedIds\<close>, the list by which \<open>removeAssets\<close> decides
  on the layout, on the geometry update and on the ids it returns, takes the ids of each
  segment from the last index to the first, all listed items of the segment among them,
  adjacent ones too. Where the layout and the geometry and intersection updates, which
  are parameters here, leave the items of the segments in place, no segment retains a
  listed id afterwards.
\<close>

theorem removeAssets_correct:
  "fst (removeAssets ug ui layout assetIds m) =
       filter (\<lambda>i. \<forall>s \<in> set (months m). i \<notin> set (map va_id (viewerAssets s))) assetIds
   \<and> fst (removeAssets ug ui layout assetIds m) =
       filter (\<lambda>i. i \<notin> set (snd (removeFromSegments (set assetIds) layout (months m) [])))
         assetIds
   \<and> snd (removeFromSegments (set assetIds) layout (months m) []) =
       concat (map (\<lambda>s. rev (filter (\<lambda>i. i \<in> set assetIds) (map va_id (viewerAssets s))))
         (months m))
   \<and> snd (removeAssets ug ui layout assetIds m) =
       (if \<forall>s \<in> set (months m). \<forall>v \<in> set (viewerAssets s). va_id v \<notin> set assetIds then m
        else updateViewportGeometry ug ui False
          (m\<lparr>months := map (\<lambda>j.
              if \<exists>s \<in> set (take (Suc j) (months m)).
                   \<exists>v \<in> set (viewerAssets s). va_id v \<in> set assetIds
              then layout ((months m ! j)\<lparr>viewerAssets :=
                     filter (\<lambda>v. va_id v \<notin> set assetIds) (viewerAssets (months m ! j))\<rparr>)
              else (months m ! j)\<lparr>viewerAssets :=
                     filter (\<lambda>v. va_id v \<notin> set assetIds) (viewerAssets (months m ! j))\<rparr>)
            [0..<length (months m)]\<rparr>))
   \<and> ((\<forall>m' i b. itemIds (ug m' i b) = itemIds m') \<and> (\<forall>m' i. itemIds (ui m' i) = itemIds m')
        \<and> (\<forall>s. map va_id (viewerAssets (layout s)) = map va_id (viewerAssets s)) \<longrightarrow>
      itemIds (snd (removeAssets ug ui layout assetIds m)) =
        map (filter (\<lambda>i. i \<notin> set assetIds)) (itemIds m)
      \<and> (\<forall>s \<in> set (months (snd (removeAssets ug ui layout assetIds m))).
           \<forall>v \<in> set (viewerAssets s). va_id v \<notin> set assetIds))"
proof (intro conjI impI)
  show "fst (removeAssets ug ui layout assetIds m) =
      filter (\<lambda>i. \<forall>s \<in> set (months m). i \<notin> set (map va_id (viewerAssets s))) assetIds"
    by (rule removeAssets_returned)
  show "fst (removeAssets ug ui layout assetIds m) =
      filter (\<lambda>i. i \<notin> set (snd (removeFromSegments (set assetIds) layout (months m) [])))
        assetIds"
    by (simp add: removeAssets_def Let_def split_beta)
  show "snd (removeFromSegments (set assetIds) layout (months m) []) =
      concat (map (\<lambda>s. rev (filter (\<lambda>i. i \<in> set assetIds) (map va_id (viewerAssets s))))
        (months m))"
    by (simp add: removeFromSegments_removed)
  show "snd (removeAssets ug ui layout assetIds m) =
      (if \<forall>s \<in> set (months m). \<forall>v \<in> set (viewerAssets s). va_id v \<notin> set assetIds then m
       else updateViewportGeometry ug ui False
         (m\<lparr>months := map (\<lambda>j.
             if \<exists>s \<in> set (take (Suc j) (months m)).
                  \<exists>v \<in> set (viewerAssets s). va_id v \<in> set assetIds
             then layout ((months m ! j)\<lparr>viewerAssets :=
                    filter (\<lambda>v. va_id v \<notin> set assetIds) (viewerAssets (months m ! j))\<rparr>)
             else (months m ! j)\<lparr>viewerAssets :=
                    filter (\<lambda>v. va_id v \<notin> set assetIds) (viewerAssets (months m ! j))\<rparr>)
           [0..<length (months m)]\<rparr>))"
    unfolding removeAssets_state removeFromSegments_months ..
next
  assume pres: "(\<forall>m' i b. itemIds (ug m' i b) = itemIds m')
      \<and> (\<forall>m' i. itemIds (ui m' i) = itemIds m')
      \<and> (\<forall>s. map va_id (viewerAssets (layout s)) = map va_id (viewerAssets s))"
  then have ug: "\<forall>m' i b. itemIds (ug m' i b) = itemIds m'"
    and ui: "\<forall>m' i. itemIds (ui m' i) = itemIds m'"
    and lay: "\<forall>s. map va_id (viewerAssets (layout s)) = map va_id (viewerAssets s)"
    by blast+
  show ids: "itemIds (snd (removeAssets ug ui layout assetIds m)) =
      map (filter (\<lambda>i. i \<notin> set assetIds)) (itemIds m)"
    by (rule removeAssets_itemIds [OF ug ui lay])
  show "\<forall>s \<in> set (months (snd (removeAssets ug ui layout assetIds m))).
      \<forall>v \<in> set (viewerAssets s). va_id v \<notin> set assetIds"
    by (rule itemIds_retains [OF ids])
qed

lemma map_update_same: "f y = f (xs ! i) \<Longrightarrow> map f (xs[i := y]) = map f xs"
  by (cases "i < length xs") (simp_all add: map_update list_update_same_conv list_update_beyond)

lemma rowLayout_ids: "map va_id (viewerAssets (rowLayout s)) = map va_id (viewerAssets s)"
  by (simp add: rowLayout_def va_id_def comp_def)

lemma windowIntersection_itemIds: "itemIds (windowIntersection m i) = itemIds m"
  by (simp add: itemIds_def windowIntersection_def map_update_same)

lemma stackGeometry_itemIds: "itemIds (stackGeometry m i b) = itemIds m"
  by (simp add: itemIds_def stackGeometry_def map_update_same)

theorem removeAssets_correct_witness:
  "fst (removeAssets stackGeometry windowIntersection rowLayout [''d'', ''x'', ''e''] album)
       = [''x'']
   \<and> snd (removeFromSegments (set [''d'', ''x'', ''e'']) rowLayout (months album) [])
       = [''e'', ''d'']
   \<and> itemIds (snd (removeAssets stackGeometry windowIntersection rowLayout
         [''d'', ''x'', ''e''] album)) = [[''a'', ''b'', ''c''], [], [''f'']]
   \<and> map seg_height (months (snd (removeAssets stackGeometry windowIntersection rowLayout
         [''d'', ''x'', ''e''] album))) = [470, 235, 235]
   \<and> map seg_top (months (snd (removeAssets stackGeometry windowIntersection rowLayout
         [''d'', ''x'', ''e''] album))) = [0, 470, 705]
   \<and> snd (removeAssets stackGeometry windowIntersection rowLayout [''x''] album) = album"
proof -
  have pres: "(\<forall>m' :: segment manager. \<forall>i b. itemIds (stackGeometry m' i b) = itemIds m')
      \<and> (\<forall>m' :: segment manager. \<forall>i. itemIds (windowIntersection m' i) = itemIds m')
      \<and> (\<forall>s :: segment. map va_id (viewerAssets (rowLayout s)) = map va_id (viewerAssets s))"
    by (simp add: stackGeometry_itemIds windowIntersection_itemIds rowLayout_ids)
  note inst = removeAssets_correct
    [of stackGeometry windowIntersection rowLayout "[''d'', ''x'', ''e'']" album]
  note none = removeAssets_correct [of stackGeometry windowIntersection rowLayout "[''x'']" album]
  have ids: "itemIds album = [[''a'', ''b'', ''c''], [''d'', ''e''], [''f'']]"
    by (simp add: itemIds_def album_def loadedSegment_def createSimpleSegment_def mkAsset_def
        va_id_def newManager_def)
  have a: "fst (removeAssets stackGeometry windowIntersection rowLayout
      [''d'', ''x'', ''e''] album) = [''x'']"
    using inst [THEN conjunct1]
    by (simp add: album_def loadedSegment_def createSimpleSegment_def mkAsset_def va_id_def
        newManager_def)
  have b: "snd (removeFromSegments (set [''d'', ''x'', ''e'']) rowLayout (months album) [])
      = [''e'', ''d'']"
    using inst [THEN conjunct2, THEN conjunct2, THEN conjunct1]
    by (simp add: album_def loadedSegment_def createSimpleSegment_def mkAsset_def va_id_def
        newManager_def)
  have c: "itemIds (snd (removeAssets stackGeometry windowIntersection rowLayout
      [''d'', ''x'', ''e''] album)) = [[''a'', ''b'', ''c''], [], [''f'']]"
    using inst [THEN conjunct2, THEN conjunct2, THEN conjunct2, THEN conjunct2] pres
    by (simp add: ids)
  note state = inst [THEN conjunct2, THEN conjunct2, THEN conjunct2, THEN conjunct1]
  have d: "map seg_height (months (snd (removeAssets stackGeometry windowIntersection rowLayout
      [''d'', ''x'', ''e''] album))) = [470, 235, 235]"
    unfolding state
    by (simp add: album_def loadedSegment_def createSimpleSegment_def mkAsset_def va_id_def
        newManager_def updateViewportGeometry_def updateIntersections_def forEachMonth_def
        visibleWindow_def stackGeometry_def windowIntersection_def rowLayout_def upt_rec)
  have e: "map seg_top (months (snd (removeAssets stackGeometry windowIntersection rowLayout
      [''d'', ''x'', ''e''] album))) = [0, 470, 705]"
    unfolding state
    by (simp add: album_def loadedSegment_def createSimpleSegment_def mkAsset_def va_id_def
        newManager_def updateViewportGeometry_def updateIntersections_def forEachMonth_def
        visibleWindow_def stackGeometry_def windowIntersection_def rowLayout_def upt_rec)
  have f: "snd (removeAssets stackGeometry windowIntersection rowLayout [''x''] album) = album"
    using none [THEN conjunct2, THEN conjunct2, THEN conjunct2, THEN conjunct1]
    by (simp add: album_def loadedSegment_def createSimpleSegment_def mkAsset_def va_id_def
        newManager_def)
  from a b c d e f show ?thesis by blast
qed

section \<open>Loading a segment once\<close>

lemma findIndex_bound: "findIndex P xs = Some i \<Longrightarrow> i < length xs"
  by (induction xs arbitrary: i) (auto split: if_splits)

lemma findIndex_holds: "findIndex P xs = Some i \<Longrightarrow> P (xs ! i)"
  by (induction xs arbitrary: i) (auto split: if_splits)

lemma findIndex_update:
  "findIndex P xs = Some i \<Longrightarrow> P y \<Longrightarrow> findIndex P (xs[i := y]) = Some i"
proof (induction xs arbitrary: i)
  case Nil
  then show ?case by simp
next
  case (Cons x xs)
  show ?case
  proof (cases "P x")
    case True
    with Cons.prems show ?thesis by simp
  next
    case False
    with Cons.prems obtain k where k: "findIndex P xs = Some k" "i = Suc k"
      by auto
    from Cons.IH [OF k(1) Cons.prems(2)] False k(2) show ?thesis by simp
  qed
qed

text \<open>
  What \<open>loadSegment\<close> itself decides, whatever the \<open>load\<close> of the segment does: a
  segment whose load task has executed is left alone, and on any other segment that the
  identifier finds \<open>load\<close> is called once, with the \<open>cancelable\<close> option (\<open>true\<close> where
  none is given).
\<close>

lemma loadSegment_executed:
  "getSegmentByIdentifier identifier m = Some i \<Longrightarrow> executed (loader (months m ! i)) \<Longrightarrow>
   loadSegment segmentLoad identifier options m = m"
  by (simp add: loadSegment_def Let_def)

lemma loadSegment_calls_load:
  "getSegmentByIdentifier identifier m = Some i \<Longrightarrow> \<not> executed (loader (months m ! i)) \<Longrightarrow>
   loadSegment segmentLoad identifier options m =
     m\<lparr>months := (months m)
        [i := segmentLoad (case options of None \<Rightarrow> True | Some c \<Rightarrow> c) (months m ! i)]\<rparr>"
  by (simp add: loadSegment_def Let_def)

lemma loadSegment_loading:
  "getSegmentByIdentifier identifier m = Some i \<Longrightarrow> loader (months m ! i) = Loading \<Longrightarrow>
   loadSegment (load variantFetch) identifier options m = m"
  by (simp add: loadSegment_def Let_def load_def executed_def)

lemma loadSegment_notLoaded:
  "getSegmentByIdentifier identifier m = Some i \<Longrightarrow> loader (months m ! i) = NotLoaded \<Longrightarrow>
   loadSegment (load variantFetch) identifier options m =
     m\<lparr>months := (months m)[i := variantFetch ((months m ! i)\<lparr>loader := Loading\<rparr>)]\<rparr>"
  by (simp add: loadSegment_def Let_def load_def executed_def)

lemma fetchStart_fields:
  "currentPage (fetchStart b s) = currentPage s"
  "nextPage (fetchStart b s) = nextPage s"
  "loader (fetchStart b s) = loader s"
  "searchTerms (fetchStart b s) = searchTerms s"
  "viewerAssets (fetchStart b s) = viewerAssets s"
  "map requestPage (sent (fetchStart b s)) =
     (case currentPage s of
        None \<Rightarrow> map requestPage (sent s)
      | Some p \<Rightarrow> map requestPage (sent s) @ [p])"
  by (simp_all add: fetchStart_def fetchRequest_def Let_def split: option.splits)

lemma searchManager_first_load:
  "loadSegment (load (fetchStart True)) (searchIdentifier beachTerms) None searchManager =
     searchManager\<lparr>months :=
       [fetchStart True ((newSearchResultsSegment ''1'' beachTerms)\<lparr>loader := Loading\<rparr>)]\<rparr>"
  by (simp add: loadSegment_def Let_def load_def executed_def getSegmentByIdentifier_def
      searchManager_def searchIdentifier_def newSearchResultsSegment_def)

text \<open>
  Claim C7, as stated: the second \<open>loadSegment\<close> is a no-op, decided by whether the
  load task of the segment has already executed. While the first load of the search
  segment is in flight its load task has not executed (a task that is loading has not
  executed), and the second call still changes nothing: it passes the \<open>executed\<close> guard
  of \<open>loadSegment\<close> and is stopped by the \<open>load\<close> of the segment.
\<close>

theorem loadSegment_in_flight_counterexample:
  "\<not> executed (loader (months (loadSegment (load (fetchStart True))
         (searchIdentifier beachTerms) None searchManager) ! 0))
   \<and> loadSegment (load (fetchStart True)) (searchIdentifier beachTerms) None
       (loadSegment (load (fetchStart True)) (searchIdentifier beachTerms) None searchManager)
     = loadSegment (load (fetchStart True)) (searchIdentifier beachTerms) None searchManager"
  unfolding searchManager_first_load
  by (simp add: loadSegment_def Let_def load_def executed_def getSegmentByIdentifier_def
      searchIdentifier_def fetchStart_fields newSearchResultsSegment_def)

text \<open>
  The guard alone does not keep a call in flight from fetching: with a \<open>load\<close> that
  fetches whenever it is called, the second call sends the request for page 1 again.
\<close>

lemma loadSegment_in_flight_unguarded:
  "map requestPage (sent (months (loadSegment (\<lambda>cancelable. fetchStart True)
       (searchIdentifier beachTerms) None
       (loadSegment (\<lambda>cancelable. fetchStart True) (searchIdentifier beachTerms) None
          searchManager)) ! 0)) = [''1'', ''1'']"
  by (simp add: loadSegment_def Let_def executed_def getSegmentByIdentifier_def
      searchManager_def searchIdentifier_def fetchStart_fields newSearchResultsSegment_def)

text \<open>
  Claim C7, amended. Let the identifier find a segment that is not loaded, let the
  variant's fetch leave the load task alone, and let the identifier not depend on the
  load state. The first \<open>loadSegment\<close> runs the fetch once on that segment, now
  \<open>Loading\<close>. While that load is in flight the load task has not executed; a second
  \<open>loadSegment\<close> passes the guard, calls the \<open>load\<close> of the segment, which does nothing
  while \<open>Loading\<close>, and so changes nothing. Once the load has resolved the load task
  has executed, and \<open>loadSegment\<close> changes nothing whatever the \<open>load\<close> of the segment
  would do: this call is stopped by the \<open>executed\<close> guard. In each case no further
  fetch is issued.
\<close>

theorem loadSegment_idempotent:
  assumes found: "getSegmentByIdentifier identifier m = Some i"
      and fresh: "loader (months m ! i) = NotLoaded"
      and keep: "\<forall>s. loader (variantFetch s) = loader s \<and> identifier (variantFetch s) = identifier s"
      and stable: "\<forall>s l b. identifier (s\<lparr>loader := l\<rparr>) = identifier s
                     \<and> identifier (s\<lparr>isLoaded := b\<rparr>) = identifier s"
  shows "months (loadSegment (load variantFetch) identifier o1 m) =
           (months m)[i := variantFetch ((months m ! i)\<lparr>loader := Loading\<rparr>)]
     \<and> \<not> executed (loader (months (loadSegment (load variantFetch) identifier o1 m) ! i))
     \<and> loadSegment (load variantFetch) identifier o2
           (loadSegment (load variantFetch) identifier o1 m) =
           loadSegment (load variantFetch) identifier o1 m
     \<and> executed (loader (months
           (segmentLoaded i (loadSegment (load variantFetch) identifier o1 m)) ! i))
     \<and> (\<forall>segmentLoad. loadSegment segmentLoad identifier o3
           (segmentLoaded i (loadSegment (load variantFetch) identifier o1 m)) =
           segmentLoaded i (loadSegment (load variantFetch) identifier o1 m))"
proof -
  let ?s = "months m ! i"
  let ?m1 = "loadSegment (load variantFetch) identifier o1 m"
  have i: "i < length (months m)"
    using found by (simp add: getSegmentByIdentifier_def findIndex_bound)
  have match: "identifier ?s"
    using found by (simp add: getSegmentByIdentifier_def findIndex_holds)
  have m1: "?m1 = m\<lparr>months := (months m)[i := variantFetch (?s\<lparr>loader := Loading\<rparr>)]\<rparr>"
    by (rule loadSegment_notLoaded [OF found fresh])
  have match1: "identifier (variantFetch (?s\<lparr>loader := Loading\<rparr>))"
    using match keep stable by simp
  have found1: "getSegmentByIdentifier identifier ?m1 = Some i"
    using found match1 by (simp add: m1 getSegmentByIdentifier_def findIndex_update)
  have seg1: "months ?m1 ! i = variantFetch (?s\<lparr>loader := Loading\<rparr>)"
    using i by (simp add: m1)
  have loading1: "loader (months ?m1 ! i) = Loading"
    using keep by (simp add: seg1)
  have flight: "\<not> executed (loader (months ?m1 ! i))"
    by (simp add: loading1 executed_def)
  have second: "loadSegment (load variantFetch) identifier o2 ?m1 = ?m1"
    by (rule loadSegment_loading [OF found1 loading1])
  let ?m2 = "segmentLoaded i ?m1"
  have seg2: "months ?m2 ! i = fetchResolved (months ?m1 ! i)"
    using i by (simp add: segmentLoaded_def m1)
  have match2: "identifier (fetchResolved (months ?m1 ! i))"
    using match1 loading1 stable by (simp add: fetchResolved_def seg1)
  have found2: "getSegmentByIdentifier identifier ?m2 = Some i"
    using found1 match2
    by (simp add: segmentLoaded_def getSegmentByIdentifier_def findIndex_update)
  have exec2: "executed (loader (months ?m2 ! i))"
    using loading1 by (simp add: seg2 fetchResolved_def executed_def)
  have third: "\<forall>segmentLoad. loadSegment segmentLoad identifier o3 ?m2 = ?m2"
    using loadSegment_executed [OF found2 exec2] by blast
  have first: "months ?m1 = (months m)[i := variantFetch (?s\<lparr>loader := Loading\<rparr>)]"
    by (simp add: m1)
  from first flight second exec2 third show ?thesis by blast
qed

theorem loadSegment_idempotent_witness:
  "getSegmentByIdentifier (searchIdentifier beachTerms) searchManager = Some 0
   \<and> loader (months searchManager ! 0) = NotLoaded
   \<and> map requestPage (sent (months
        (loadSegment (load (fetchStart True)) (searchIdentifier beachTerms) None searchManager) ! 0))
       = [''1'']
   \<and> loadSegment (load (fetchStart True)) (searchIdentifier beachTerms) (Some False)
        (loadSegment (load (fetchStart True)) (searchIdentifier beachTerms) None searchManager)
       = loadSegment (load (fetchStart True)) (searchIdentifier beachTerms) None searchManager
   \<and> loadSegment (\<lambda>cancelable. fetchStart True) (searchIdentifier beachTerms) None
        (segmentLoaded 0
          (loadSegment (load (fetchStart True)) (searchIdentifier beachTerms) None searchManager))
       = segmentLoaded 0
          (loadSegment (load (fetchStart True)) (searchIdentifier beachTerms) None searchManager)"
proof -
  have found: "getSegmentByIdentifier (searchIdentifier beachTerms) searchManager = Some 0"
    by (simp add: getSegmentByIdentifier_def searchManager_def searchIdentifier_def
        newSearchResultsSegment_def)
  have fresh: "loader (months searchManager ! 0) = NotLoaded"
    by (simp add: searchManager_def newSearchResultsSegment_def)
  have keep: "\<forall>s. loader (fetchStart True s) = loader s
      \<and> searchIdentifier beachTerms (fetchStart True s) = searchIdentifier beachTerms s"
    by (simp add: searchIdentifier_def fetchStart_fields)
  have stable: "\<forall>s l b. searchIdentifier beachTerms (s\<lparr>loader := l\<rparr>) = searchIdentifier beachTerms s
      \<and> searchIdentifier beachTerms (s\<lparr>isLoaded := b\<rparr>) = searchIdentifier beachTerms s"
    by (simp add: searchIdentifier_def)
  note inst = loadSegment_idempotent [OF found fresh keep stable, of None "Some False" None]
  have once: "map requestPage (sent (months
      (loadSegment (load (fetchStart True)) (searchIdentifier beachTerms) None searchManager) ! 0))
      = [''1'']"
    using inst [THEN conjunct1]
    by (simp add: searchManager_def newSearchResultsSegment_def fetchStart_fields)
  have second: "loadSegment (load (fetchStart True)) (searchIdentifier beachTerms) (Some False)
      (loadSegment (load (fetchStart True)) (searchIdentifier beachTerms) None searchManager)
      = loadSegment (load (fetchStart True)) (searchIdentifier beachTerms) None searchManager"
    using inst [THEN conjunct2, THEN conjunct2, THEN conjunct1] .
  have third: "loadSegment (\<lambda>cancelable. fetchStart True) (searchIdentifier beachTerms) None
      (segmentLoaded 0
        (loadSegment (load (fetchStart True)) (searchIdentifier beachTerms) None searchManager))
      = segmentLoaded 0
        (loadSegment (load (fetchStart True)) (searchIdentifier beachTerms) None searchManager)"
    using inst [THEN conjunct2, THEN conjunct2, THEN conjunct2, THEN conjunct2] by blast
  from found fresh once second third show ?thesis by blast
qed

section \<open>The paginated-query segment\<close>



text \<open>
  Claim C6. Assume the layout keeps the assets of a segment. A fetch with no current
  page changes nothing. Every other fetch sends one request and leaves the segment with
  its former assets, in their order, followed by the items of the answer to that
  request, in the answer's order; so the asset sequence before a fetch is a prefix of
  the asset sequence after it. Of the two parts of a fetch, the one before the answer
  touches no asset and the one after it appends the answer's items.
\<close>

theorem fetch_appends:
  assumes lay: "\<forall>s. assets (layout s) = assets s"
  shows "assets (fetch isSmartSearchEnabled client layout toTimelineAsset s) =
           (case fetchRequest isSmartSearchEnabled s of
              None \<Rightarrow> assets s
            | Some q \<Rightarrow> assets s @ map toTimelineAsset (resp_items (client q)))
     \<and> (currentPage s = None \<longrightarrow>
           fetch isSmartSearchEnabled client layout toTimelineAsset s = s)
     \<and> (currentPage s \<noteq> None \<longrightarrow> fetchRequest isSmartSearchEnabled s \<noteq> None)
     \<and> prefix (assets s) (assets (fetch isSmartSearchEnabled client layout toTimelineAsset s))
     \<and> assets (fetchStart isSmartSearchEnabled s) = assets s
     \<and> assets (fetchFinish layout toTimelineAsset r s)
           = assets s @ map toTimelineAsset (resp_items r)
     \<and> prefix (assets s) (assets (fetchFinish layout toTimelineAsset r s))"
proof -
  have start: "\<And>s. assets (fetchStart isSmartSearchEnabled s) = assets s"
    by (simp add: assets_def fetchStart_fields)
  have fin: "\<And>r s. assets (fetchFinish layout toTimelineAsset r s)
      = assets s @ map toTimelineAsset (resp_items r)"
    by (simp add: fetchFinish_def lay) (simp add: assets_def comp_def)
  have whole: "assets (fetch isSmartSearchEnabled client layout toTimelineAsset s) =
      (case fetchRequest isSmartSearchEnabled s of
         None \<Rightarrow> assets s
       | Some q \<Rightarrow> assets s @ map toTimelineAsset (resp_items (client q)))"
    by (simp add: fetch_def fin split: option.splits) (simp add: assets_def)
  have none: "currentPage s = None \<longrightarrow>
      fetch isSmartSearchEnabled client layout toTimelineAsset s = s"
    by (simp add: fetch_def fetchRequest_def)
  have some: "currentPage s \<noteq> None \<longrightarrow> fetchRequest isSmartSearchEnabled s \<noteq> None"
    by (auto simp: fetchRequest_def Let_def)
  have pre: "prefix (assets s) (assets (fetch isSmartSearchEnabled client layout toTimelineAsset s))"
    unfolding whole by (simp split: option.splits)
  from whole none some pre start fin show ?thesis by simp
qed

lemma rowLayout_assets: "assets (rowLayout s) = assets s"
  by (simp add: rowLayout_def assets_def comp_def)

theorem fetch_appends_witness:
  "assets (fetch True (\<lambda>q. \<lparr> resp_items = [''c'', requestPage q], resp_nextPage = None \<rparr>)
       rowLayout mkAsset placed)
     = [mkAsset ''a'', mkAsset ''b'', mkAsset ''c'', mkAsset ''1'']
   \<and> fetch True (\<lambda>q. \<lparr> resp_items = [''c'', requestPage q], resp_nextPage = None \<rparr>)
       rowLayout mkAsset (placed\<lparr>currentPage := None\<rparr>) = placed\<lparr>currentPage := None\<rparr>
   \<and> assets (fetchFinish rowLayout mkAsset \<lparr> resp_items = [''c'', ''d''], resp_nextPage = Some ''2'' \<rparr>
       placed) = [mkAsset ''a'', mkAsset ''b'', mkAsset ''c'', mkAsset ''d'']"
proof -
  have lay: "\<forall>s :: searchResultsSegment. assets (rowLayout s) = assets s"
    by (simp add: rowLayout_assets)
  have old: "assets placed = [mkAsset ''a'', mkAsset ''b'']"
    by (simp add: assets_def placed_def mkViewerAsset_def)
  have req: "fetchRequest True placed = Some (SearchSmart
      \<lparr> dto_terms = beachTerms, dto_withExif = True, dto_isVisible = True, dto_page = ''1'' \<rparr>)"
    by (simp add: fetchRequest_def placed_def newSearchResultsSegment_def beachTerms_def)
  note inst = fetch_appends [OF lay, of True
      "\<lambda>q. \<lparr> resp_items = [''c'', requestPage q], resp_nextPage = None \<rparr>" mkAsset placed
      "\<lparr> resp_items = [''c'', ''d''], resp_nextPage = Some ''2'' \<rparr>"]
  note gone = fetch_appends [OF lay, of True
      "\<lambda>q. \<lparr> resp_items = [''c'', requestPage q], resp_nextPage = None \<rparr>" mkAsset
      "placed\<lparr>currentPage := None\<rparr>"
      "\<lparr> resp_items = [''c'', ''d''], resp_nextPage = Some ''2'' \<rparr>"]
  have a: "assets (fetch True (\<lambda>q. \<lparr> resp_items = [''c'', requestPage q], resp_nextPage = None \<rparr>)
      rowLayout mkAsset placed)
      = [mkAsset ''a'', mkAsset ''b'', mkAsset ''c'', mkAsset ''1'']"
    using inst [THEN conjunct1] by (simp add: req old)
  have b: "fetch True (\<lambda>q. \<lparr> resp_items = [''c'', requestPage q], resp_nextPage = None \<rparr>)
      rowLayout mkAsset (placed\<lparr>currentPage := None\<rparr>) = placed\<lparr>currentPage := None\<rparr>"
    using gone [THEN conjunct2, THEN conjunct1] by simp
  have c: "assets (fetchFinish rowLayout mkAsset
      \<lparr> resp_items = [''c'', ''d''], resp_nextPage = Some ''2'' \<rparr> placed)
      = [mkAsset ''a'', mkAsset ''b'', mkAsset ''c'', mkAsset ''d'']"
    using inst [THEN conjunct2, THEN conjunct2, THEN conjunct2, THEN conjunct2, THEN conjunct2,
      THEN conjunct1] by (simp add: old)
  from a b c show ?thesis by blast
qed

section \<open>Pagination\<close>

lemma loadNextPage_guard:
  "nextPage s = None \<or> nextPage s = currentPage s \<Longrightarrow> loadNextPage b s = s"
  by (auto simp: loadNextPage_def split: option.splits)

lemma loadNextPage_advance:
  assumes "nextPage s = Some np" "currentPage s \<noteq> Some np"
  shows "currentPage (loadNextPage b s) = Some np"
    and "nextPage (loadNextPage b s) = Some np"
    and "map requestPage (sent (loadNextPage b s)) = map requestPage (sent s) @ [np]"
  using assms by (simp_all add: loadNextPage_def reload_def load_def fetchStart_fields)

lemma fetchResolved_fields:
  "currentPage (fetchResolved s) = currentPage s"
  "nextPage (fetchResolved s) = nextPage s"
  "sent (fetchResolved s) = sent s"
  by (simp_all add: fetchResolved_def split: loadTask.splits)

lemma fetchFinish_fields:
  assumes "\<forall>s. currentPage (layout s) = currentPage s \<and> nextPage (layout s) = nextPage s
             \<and> sent (layout s) = sent s"
  shows "currentPage (fetchFinish layout conv r s) = currentPage s"
    and "nextPage (fetchFinish layout conv r s) = resp_nextPage r"
    and "sent (fetchFinish layout conv r s) = sent s"
  using assms by (simp_all add: fetchFinish_def)

lemma observe_firstLoad:
  "observe (firstLoad b terms (threePages xs ys zs)) = pagingStates ! 0"
  by (simp add: observe_def firstLoad_def threePages_def pagingStates_def pagesSent_def
      load_def newSearchResultsSegment_def fetchStart_fields)

text \<open>A step of the world is \<open>absStep\<close> on what is observed of it.\<close>

lemma observe_step:
  assumes lay: "\<forall>s. currentPage (layout s) = currentPage s \<and> nextPage (layout s) = nextPage s
             \<and> sent (layout s) = sent s"
  shows "observe (step b layout conv e w) = absStep e (observe w)"
proof (cases e)
  case LoadNextPage
  show ?thesis
  proof (cases "nextPage (w_segment w)")
    case None
    then show ?thesis
      by (simp add: LoadNextPage step_def observe_def pagesSent_def loadNextPage_guard)
  next
    case (Some np)
    show ?thesis
    proof (cases "currentPage (w_segment w) = Some np")
      case True
      with Some show ?thesis
        by (simp add: LoadNextPage step_def observe_def pagesSent_def loadNextPage_guard)
    next
      case False
      with Some show ?thesis
        by (simp add: LoadNextPage step_def observe_def pagesSent_def loadNextPage_advance)
    qed
  qed
next
  case Resolve
  show ?thesis
    by (simp add: Resolve step_def observe_def pagesSent_def fetchResolved_fields
        fetchFinish_fields [OF lay] split: list.splits)
qed

lemma absStep_pagingStates:
  "ob \<in> set pagingStates \<Longrightarrow> absStep e ob \<in> set pagingStates"
  by (cases e) (auto simp: pagingStates_def)

lemma absStep_exhausted:
  "absStep e (pagingStates ! 5) = pagingStates ! 5"
  by (cases e) (simp_all add: pagingStates_def)

lemma run_pagingStates:
  assumes lay: "\<forall>s. currentPage (layout s) = currentPage s \<and> nextPage (layout s) = nextPage s
             \<and> sent (layout s) = sent s"
  shows "observe w \<in> set pagingStates \<Longrightarrow> observe (run b layout conv es w) \<in> set pagingStates"
proof (induction es arbitrary: w)
  case Nil
  then show ?case by (simp add: run_def)
next
  case (Cons e es)
  have "observe (step b layout conv e w) \<in> set pagingStates"
    using Cons.prems by (simp add: observe_step [OF lay] absStep_pagingStates)
  from Cons.IH [OF this] show ?case by (simp add: run_def)
qed

lemma run_exhausted:
  assumes lay: "\<forall>s. currentPage (layout s) = currentPage s \<and> nextPage (layout s) = nextPage s
             \<and> sent (layout s) = sent s"
  shows "observe w = pagingStates ! 5 \<Longrightarrow> observe (run b layout conv es w) = pagingStates ! 5"
proof (induction es arbitrary: w)
  case Nil
  then show ?case by (simp add: run_def)
next
  case (Cons e es)
  have "observe (step b layout conv e w) = pagingStates ! 5"
    using Cons.prems by (simp add: observe_step [OF lay] absStep_exhausted)
  from Cons.IH [OF this] show ?case by (simp add: run_def)
qed

lemma run_append: "run b layout conv (es @ fs) w = run b layout conv fs (run b layout conv es w)"
  by (simp add: run_def)

lemma pagingStates_prefix:
  "ob \<in> set pagingStates \<Longrightarrow> prefix (fst ob) [''1'', ''2'', ''3'']"
  by (auto simp: pagingStates_def prefix_def)

lemma run_canonical:
  assumes lay: "\<forall>s. currentPage (layout s) = currentPage s \<and> nextPage (layout s) = nextPage s
             \<and> sent (layout s) = sent s"
  shows "observe (run b layout conv [Resolve, LoadNextPage, Resolve, LoadNextPage, Resolve]
           (firstLoad b terms (threePages xs ys zs))) = pagingStates ! 5"
  by (simp add: run_def observe_step [OF lay] observe_firstLoad) (simp add: pagingStates_def)

text \<open>
  Claim C4. \<open>loadNextPage\<close> leaves the segment as it is when there is no next-page token
  or the token equals the current page; otherwise the token becomes the current page and
  one request for that page goes out. For a query client whose answers carry the tokens
  \<open>"2"\<close>, \<open>"3"\<close>, \<open>null\<close>, and a layout that leaves the page tokens and the sent
  requests alone: the first load requests page 1; whatever the order of \<open>loadNextPage\<close>
  calls and answers, the pages requested are an initial part of 1, 2, 3; when every answer is followed by a
  \<open>loadNextPage\<close>, they are exactly 1, 2, 3, that is the first load and two fetches by
  \<open>loadNextPage\<close>, and the next-page token is then \<open>null\<close>; and nothing that happens
  after that sends another request.
\<close>

theorem loadNextPage_pagination:
  assumes lay: "\<forall>s. currentPage (layout s) = currentPage s \<and> nextPage (layout s) = nextPage s
             \<and> sent (layout s) = sent s"
  shows "(nextPage s = None \<or> nextPage s = currentPage s \<longrightarrow> loadNextPage b s = s)
     \<and> (\<forall>np. nextPage s = Some np \<and> currentPage s \<noteq> Some np \<longrightarrow>
           currentPage (loadNextPage b s) = Some np
           \<and> map requestPage (sent (loadNextPage b s)) = map requestPage (sent s) @ [np])
     \<and> pagesSent (firstLoad b terms (threePages xs ys zs)) = [''1'']
     \<and> (\<forall>es. prefix (pagesSent (run b layout conv es (firstLoad b terms (threePages xs ys zs))))
                 [''1'', ''2'', ''3''])
     \<and> pagesSent (run b layout conv [Resolve, LoadNextPage, Resolve, LoadNextPage, Resolve]
           (firstLoad b terms (threePages xs ys zs))) = [''1'', ''2'', ''3'']
     \<and> nextPage (w_segment (run b layout conv [Resolve, LoadNextPage, Resolve, LoadNextPage, Resolve]
           (firstLoad b terms (threePages xs ys zs)))) = None
     \<and> (\<forall>es. pagesSent (run b layout conv
                 ([Resolve, LoadNextPage, Resolve, LoadNextPage, Resolve] @ es)
                 (firstLoad b terms (threePages xs ys zs))) = [''1'', ''2'', ''3''])"
proof (intro conjI allI impI)
  assume "nextPage s = None \<or> nextPage s = currentPage s"
  then show "loadNextPage b s = s" by (rule loadNextPage_guard)
next
  fix np
  assume np: "nextPage s = Some np \<and> currentPage s \<noteq> Some np"
  then show "currentPage (loadNextPage b s) = Some np"
    by (simp add: loadNextPage_advance)
  from np show "map requestPage (sent (loadNextPage b s)) = map requestPage (sent s) @ [np]"
    by (simp add: loadNextPage_advance)
next
  show "pagesSent (firstLoad b terms (threePages xs ys zs)) = [''1'']"
    using observe_firstLoad [of b terms xs ys zs] by (simp add: observe_def pagingStates_def)
next
  fix es
  let ?w0 = "firstLoad b terms (threePages xs ys zs)"
  have start: "observe ?w0 \<in> set pagingStates"
    by (simp add: observe_firstLoad pagingStates_def)
  have "observe (run b layout conv es ?w0) \<in> set pagingStates"
    by (rule run_pagingStates [OF lay start])
  then show "prefix (pagesSent (run b layout conv es ?w0)) [''1'', ''2'', ''3'']"
    using pagingStates_prefix by (fastforce simp: observe_def)
next
  let ?w5 = "run b layout conv [Resolve, LoadNextPage, Resolve, LoadNextPage, Resolve]
           (firstLoad b terms (threePages xs ys zs))"
  have w5: "observe ?w5 = pagingStates ! 5"
    by (rule run_canonical [OF lay])
  then show "pagesSent ?w5 = [''1'', ''2'', ''3'']"
    by (simp add: observe_def pagingStates_def)
  from w5 show "nextPage (w_segment ?w5) = None"
    by (simp add: observe_def pagingStates_def)
  fix es
  have "observe (run b layout conv es ?w5) = pagingStates ! 5"
    by (rule run_exhausted [OF lay w5])
  then show "pagesSent (run b layout conv
        ([Resolve, LoadNextPage, Resolve, LoadNextPage, Resolve] @ es)
        (firstLoad b terms (threePages xs ys zs))) = [''1'', ''2'', ''3'']"
    unfolding run_append by (simp add: observe_def pagingStates_def)
qed

lemma rowLayout_fields:
  "currentPage (rowLayout s) = currentPage s"
  "nextPage (rowLayout s) = nextPage s"
  "sent (rowLayout s) = sent s"
  by (simp_all add: rowLayout_def)

theorem loadNextPage_pagination_witness:
  "loadNextPage True (newSearchResultsSegment ''1'' beachTerms)
       = newSearchResultsSegment ''1'' beachTerms
   \<and> currentPage (loadNextPage True ((newSearchResultsSegment ''1'' beachTerms)\<lparr>nextPage := Some ''2''\<rparr>))
       = Some ''2''
   \<and> map requestPage
        (sent (loadNextPage True ((newSearchResultsSegment ''1'' beachTerms)\<lparr>nextPage := Some ''2''\<rparr>)))
       = [''2'']
   \<and> prefix (pagesSent (run True rowLayout mkAsset [LoadNextPage, Resolve, LoadNextPage, LoadNextPage]
        (firstLoad True beachTerms (threePages [''a'', ''b''] [''c''] [])))) [''1'', ''2'', ''3'']
   \<and> pagesSent (run True rowLayout mkAsset [Resolve, LoadNextPage, Resolve, LoadNextPage, Resolve]
        (firstLoad True beachTerms (threePages [''a'', ''b''] [''c''] []))) = [''1'', ''2'', ''3'']
   \<and> pagesSent (run True rowLayout mkAsset
        ([Resolve, LoadNextPage, Resolve, LoadNextPage, Resolve] @ [LoadNextPage, Resolve, LoadNextPage])
        (firstLoad True beachTerms (threePages [''a'', ''b''] [''c''] []))) = [''1'', ''2'', ''3'']"
proof -
  have lay: "\<forall>s :: searchResultsSegment. currentPage (rowLayout s) = currentPage s
      \<and> nextPage (rowLayout s) = nextPage s \<and> sent (rowLayout s) = sent s"
    by (simp add: rowLayout_fields)
  have none: "nextPage (newSearchResultsSegment ''1'' beachTerms) = None"
    by (simp add: newSearchResultsSegment_def)
  have some: "nextPage ((newSearchResultsSegment ''1'' beachTerms)\<lparr>nextPage := Some ''2''\<rparr>) = Some ''2''
      \<and> currentPage ((newSearchResultsSegment ''1'' beachTerms)\<lparr>nextPage := Some ''2''\<rparr>) \<noteq> Some ''2''"
    by (simp add: newSearchResultsSegment_def)
  note idle = loadNextPage_pagination [OF lay,
      where s = "newSearchResultsSegment ''1'' beachTerms" and b = True and conv = mkAsset
        and terms = beachTerms and xs = "[''a'', ''b'']" and ys = "[''c'']" and zs = "[]"]
  note advance = loadNextPage_pagination [OF lay,
      where s = "(newSearchResultsSegment ''1'' beachTerms)\<lparr>nextPage := Some ''2''\<rparr>"
        and b = True and conv = mkAsset
        and terms = beachTerms and xs = "[''a'', ''b'']" and ys = "[''c'']" and zs = "[]"]
  have a: "loadNextPage True (newSearchResultsSegment ''1'' beachTerms)
      = newSearchResultsSegment ''1'' beachTerms"
    using idle none by blast
  have b: "currentPage (loadNextPage True
        ((newSearchResultsSegment ''1'' beachTerms)\<lparr>nextPage := Some ''2''\<rparr>)) = Some ''2''
      \<and> map requestPage (sent (loadNextPage True
        ((newSearchResultsSegment ''1'' beachTerms)\<lparr>nextPage := Some ''2''\<rparr>)))
        = map requestPage (sent ((newSearchResultsSegment ''1'' beachTerms)\<lparr>nextPage := Some ''2''\<rparr>))
          @ [''2'']"
    using advance some by blast
  have b1: "currentPage (loadNextPage True
        ((newSearchResultsSegment ''1'' beachTerms)\<lparr>nextPage := Some ''2''\<rparr>)) = Some ''2''"
    using b by blast
  have b2: "map requestPage (sent (loadNextPage True
        ((newSearchResultsSegment ''1'' beachTerms)\<lparr>nextPage := Some ''2''\<rparr>))) = [''2'']"
    using b by (simp add: newSearchResultsSegment_def)
  have c: "prefix (pagesSent (run True rowLayout mkAsset
        [LoadNextPage, Resolve, LoadNextPage, LoadNextPage]
        (firstLoad True beachTerms (threePages [''a'', ''b''] [''c''] [])))) [''1'', ''2'', ''3'']"
    using idle by blast
  have d: "pagesSent (run True rowLayout mkAsset
        [Resolve, LoadNextPage, Resolve, LoadNextPage, Resolve]
        (firstLoad True beachTerms (threePages [''a'', ''b''] [''c''] []))) = [''1'', ''2'', ''3'']"
    using idle by blast
  have e: "pagesSent (run True rowLayout mkAsset
        ([Resolve, LoadNextPage, Resolve, LoadNextPage, Resolve] @ [LoadNextPage, Resolve, LoadNextPage])
        (firstLoad True beachTerms (threePages [''a'', ''b''] [''c''] []))) = [''1'', ''2'', ''3'']"
    using idle by blast
  from a b1 b2 c d e show ?thesis by blast
qed


end
